(* ===== verification/Prelude.thy ===== *)
theory Prelude
  imports Main "HOL-Library.Word"
begin

text \<open>
  Shared vocabulary of the development: machine integers, the outcome of a fallible Rust
  call (\<open>Ok\<close>, \<open>Err\<close>, or a panic with its message), the combinators the code uses on
  \<open>Result\<close> and \<open>Option\<close>, indexing that panics out of range, checked arithmetic on
  \<open>u64\<close>, and runs of a labelled step relation with the locale for their invariants,
  which the concurrent components instantiate.
\<close>

section \<open>Machine integers\<close>

type_synonym u8 = "8 word"
type_synonym u16 = "16 word"
type_synonym u32 = "32 word"
type_synonym u64 = "64 word"
type_synonym i32 = "32 word"
type_synonym usize = "64 word"
type_synonym bytes = "u8 list"

text \<open>\<open>SystemTime\<close>: the code stores and compares it only; nanoseconds from the epoch.\<close>

type_synonym SystemTime = int

named_theorems outcome_simps "evaluation rules of the outcome combinators"

section \<open>Outcomes of fallible calls\<close>

text \<open>
  A call returns \<open>Ok\<close> or \<open>Err\<close>, as a Rust \<open>Result\<close>, or panics. The string of a
  panic is the message of the \<open>expect\<close> or of the operation that panicked.
\<close>

datatype (oks: 'a, errs: 'e) outcome = Ok 'a | Err 'e | Panic string

text \<open>The \<open>?\<close> operator and \<open>let\<close> sequencing: stop at the first error or panic.\<close>

fun and_then :: "('a, 'e) outcome \<Rightarrow> ('a \<Rightarrow> ('b, 'e) outcome) \<Rightarrow> ('b, 'e) outcome" where
  "and_then (Ok a) f = f a"
| "and_then (Err e) f = Err e"
| "and_then (Panic msg) f = Panic msg"

fun map_err :: "('e \<Rightarrow> 'f) \<Rightarrow> 'e + 'a \<Rightarrow> ('a, 'f) outcome" where
  "map_err f (Inr a) = Ok a"
| "map_err f (Inl e) = Err (f e)"

fun ok_or :: "'e \<Rightarrow> 'a option \<Rightarrow> ('a, 'e) outcome" where
  "ok_or e (Some a) = Ok a"
| "ok_or e None = Err e"

text \<open>\<open>Option::expect\<close> and \<open>Option::unwrap\<close>.\<close>

fun expect :: "string \<Rightarrow> 'a option \<Rightarrow> ('a, 'e) outcome" where
  "expect msg (Some a) = Ok a"
| "expect msg None = Panic msg"

abbreviation unwrap :: "'a option \<Rightarrow> ('a, 'e) outcome" where
  "unwrap x \<equiv> expect ''called unwrap on a None or Err value'' x"

abbreviation oob :: string where
  "oob \<equiv> ''index out of bounds''"

text \<open>\<open>v[i]\<close> on a vector: panics out of range.\<close>

definition index :: "'a list \<Rightarrow> nat \<Rightarrow> ('a, 'e) outcome" where
  "index xs i = (if i < length xs then Ok (xs ! i) else Panic oob)"

fun is_ok :: "('a, 'e) outcome \<Rightarrow> bool" where
  "is_ok (Ok _) = True"
| "is_ok (Err _) = False"
| "is_ok (Panic _) = False"

fun is_err :: "('a, 'e) outcome \<Rightarrow> bool" where
  "is_err (Ok _) = False"
| "is_err (Err _) = True"
| "is_err (Panic _) = False"

fun panics :: "('a, 'e) outcome \<Rightarrow> bool" where
  "panics (Ok _) = False"
| "panics (Err _) = False"
| "panics (Panic _) = True"

lemma and_then_eq_Ok [outcome_simps]:
  "and_then m f = Ok b \<longleftrightarrow> (\<exists>a. m = Ok a \<and> f a = Ok b)"
  by (cases m) auto

lemma and_then_eq_Err [outcome_simps]:
  "and_then m f = Err e \<longleftrightarrow> m = Err e \<or> (\<exists>a. m = Ok a \<and> f a = Err e)"
  by (cases m) auto

lemma and_then_eq_Panic [outcome_simps]:
  "and_then m f = Panic p \<longleftrightarrow> m = Panic p \<or> (\<exists>a. m = Ok a \<and> f a = Panic p)"
  by (cases m) auto

lemma and_then_assoc: "and_then (and_then m f) g = and_then m (\<lambda>a. and_then (f a) g)"
  by (cases m) auto

lemma map_err_eq_Ok [outcome_simps]: "map_err f r = Ok a \<longleftrightarrow> r = Inr a"
  by (cases r) auto

lemma map_err_eq_Err [outcome_simps]: "map_err f r = Err x \<longleftrightarrow> (\<exists>e. r = Inl e \<and> x = f e)"
  by (cases r) auto

lemma map_err_not_Panic [simp]: "map_err f r \<noteq> Panic p"
  by (cases r) auto

lemma ok_or_eq_Ok [outcome_simps]: "ok_or e x = Ok a \<longleftrightarrow> x = Some a"
  by (cases x) auto

lemma ok_or_eq_Err [outcome_simps]: "ok_or e x = Err y \<longleftrightarrow> x = None \<and> y = e"
  by (cases x) auto

lemma ok_or_not_Panic [simp]: "ok_or e x \<noteq> Panic p"
  by (cases x) auto

lemma expect_eq_Ok [outcome_simps]: "expect msg x = Ok a \<longleftrightarrow> x = Some a"
  by (cases x) auto

lemma expect_not_Err [simp]: "expect msg x \<noteq> Err e"
  by (cases x) auto

lemma expect_eq_Panic [outcome_simps]: "expect msg x = Panic p \<longleftrightarrow> x = None \<and> p = msg"
  by (cases x) auto

lemma index_eq_Ok [outcome_simps]: "index xs i = Ok a \<longleftrightarrow> i < length xs \<and> a = xs ! i"
  by (auto simp: index_def)

lemma index_not_Err [simp]: "index xs i \<noteq> Err e"
  by (simp add: index_def)

lemma index_eq_Panic [outcome_simps]: "index xs i = Panic p \<longleftrightarrow> length xs \<le> i \<and> p = oob"
  by (auto simp: index_def)

lemma panics_iff: "panics m \<longleftrightarrow> (\<exists>p. m = Panic p)"
  by (cases m) auto

section \<open>Checked arithmetic on u64\<close>

text \<open>\<open>u64::checked_add\<close> and \<open>u64::checked_sub\<close> of the standard library.\<close>

definition checked_add :: "u64 \<Rightarrow> u64 \<Rightarrow> u64 option" where
  "checked_add a b = (if unat a + unat b < 2 ^ 64 then Some (a + b) else None)"

definition checked_sub :: "u64 \<Rightarrow> u64 \<Rightarrow> u64 option" where
  "checked_sub a b = (if b \<le> a then Some (a - b) else None)"

lemma checked_add_Some: "checked_add a b = Some c \<longleftrightarrow> unat c = unat a + unat b"
proof
  assume "checked_add a b = Some c"
  then show "unat c = unat a + unat b"
    by (auto simp: checked_add_def unat_word_ariths split: if_splits)
next
  assume sum: "unat c = unat a + unat b"
  have "unat c < 2 ^ 64"
    using unsigned_less [of c] by simp
  with sum have lt: "unat a + unat b < 2 ^ 64" by simp
  then have "unat (a + b) = unat c"
    using sum by (simp add: unat_word_ariths)
  then have "a + b = c" by (simp add: word_unat_eq_iff)
  with lt show "checked_add a b = Some c" by (simp add: checked_add_def)
qed

lemma checked_add_None: "checked_add a b = None \<longleftrightarrow> 2 ^ 64 \<le> unat a + unat b"
  by (auto simp: checked_add_def)

lemma checked_sub_Some: "checked_sub a b = Some c \<longleftrightarrow> unat c + unat b = unat a"
proof
  assume "checked_sub a b = Some c"
  then have "b \<le> a" and "c = a - b"
    by (auto simp: checked_sub_def split: if_splits)
  then show "unat c + unat b = unat a"
    by (simp add: unat_sub word_le_nat_alt)
next
  assume sum: "unat c + unat b = unat a"
  then have le: "b \<le> a" by (simp add: word_le_nat_alt)
  then have "unat (a - b) = unat c"
    using sum by (simp add: unat_sub)
  then have "a - b = c" by (simp add: word_unat_eq_iff)
  with le show "checked_sub a b = Some c" by (simp add: checked_sub_def)
qed

lemma checked_sub_None: "checked_sub a b = None \<longleftrightarrow> unat a < unat b"
  by (auto simp: checked_sub_def word_le_nat_alt)

section \<open>Runs of a step relation\<close>

text \<open>
  A concurrent component is a labelled step relation; \<open>run step s evs t\<close> says that the
  labels \<open>evs\<close>, in order, lead from \<open>s\<close> to \<open>t\<close>.
\<close>

inductive run :: "('s \<Rightarrow> 'l \<Rightarrow> 's \<Rightarrow> bool) \<Rightarrow> 's \<Rightarrow> 'l list \<Rightarrow> 's \<Rightarrow> bool" for step where
  none: "run step s [] s"
| more: "run step s evs t \<Longrightarrow> step t ev u \<Longrightarrow> run step s (evs @ [ev]) u"

inductive_cases run_NilE [elim!]: "run step s [] t"

lemma run_single: "step s ev t \<Longrightarrow> run step s [ev] t"
  using run.more [OF run.none, of step s ev t] by simp

lemma run_append: "run step t evs' u \<Longrightarrow> run step s evs t \<Longrightarrow> run step s (evs @ evs') u"
  by (induction rule: run.induct) (auto simp flip: append_assoc intro: run.more)

lemma run_Cons: "step s ev t \<Longrightarrow> run step t evs u \<Longrightarrow> run step s (ev # evs) u"
  using run_append [OF _ run_single, of step t evs u s ev] by simp

lemma run_snocE:
  assumes "run step s (evs @ [ev]) u"
  obtains t where "run step s evs t" "step t ev u"
  using assms by (cases rule: run.cases) auto

text \<open>A property that every step keeps holds all along a run.\<close>

locale preserved =
  fixes step :: "'s \<Rightarrow> 'l \<Rightarrow> 's \<Rightarrow> bool" and inv :: "'s \<Rightarrow> bool"
  assumes step_keeps: "step s ev t \<Longrightarrow> inv s \<Longrightarrow> inv t"
begin

lemma run_keeps: "run step s evs t \<Longrightarrow> inv s \<Longrightarrow> inv t"
  by (induction rule: run.induct) (auto intro: step_keeps)

end

text \<open>A step relation computed by a function: a run is a fold of the function.\<close>

fun run_fun :: "('s \<Rightarrow> 'l \<Rightarrow> 's option) \<Rightarrow> 'l list \<Rightarrow> 's \<Rightarrow> 's option" where
  "run_fun f [] s = Some s"
| "run_fun f (ev # evs) s = Option.bind (f s ev) (run_fun f evs)"

lemma run_fun_append:
  "run_fun f (evs @ evs') s = Option.bind (run_fun f evs s) (run_fun f evs')"
  by (induction evs arbitrary: s) (auto split: bind_split)

locale computed_steps =
  fixes step :: "'s \<Rightarrow> 'l \<Rightarrow> 's \<Rightarrow> bool" and f :: "'s \<Rightarrow> 'l \<Rightarrow> 's option"
  assumes step_iff: "step s ev t \<longleftrightarrow> f s ev = Some t"
begin

lemma run_iff: "run step s evs t \<longleftrightarrow> run_fun f evs s = Some t"
proof
  show "run step s evs t \<Longrightarrow> run_fun f evs s = Some t"
    by (induction rule: run.induct) (simp_all add: run_fun_append step_iff)
  show "run_fun f evs s = Some t \<Longrightarrow> run step s evs t"
  proof (induction evs arbitrary: t rule: rev_induct)
    case Nil
    then show ?case by (simp add: run.none)
  next
    case (snoc ev evs)
    then show ?case
      by (auto simp: run_fun_append bind_eq_Some_conv step_iff intro: run.more)
  qed
qed

end

section \<open>Refinement of an abstract service\<close>

text \<open>
  A computed component implements an abstract step relation: each of its steps stands for a
  list of abstract actions, often empty, and \<open>observe\<close> collects them along a run. \<open>scope\<close> is an
  assumption on the run as a whole, stated of its last state and inherited by the earlier ones.
\<close>

fun observe :: "('s \<Rightarrow> 'l \<Rightarrow> 's option) \<Rightarrow> ('s \<Rightarrow> 'l \<Rightarrow> 's \<Rightarrow> 'm list) \<Rightarrow> 'l list \<Rightarrow> 's \<Rightarrow> 'm list" where
  "observe f acts [] s = []"
| "observe f acts (ev # evs) s =
     (case f s ev of Some t \<Rightarrow> acts s ev t @ observe f acts evs t | None \<Rightarrow> [])"

lemma observe_append:
  "run_fun f evs s = Some t \<Longrightarrow> observe f acts (evs @ evs') s = observe f acts evs s @ observe f acts evs' t"
  by (induction evs arbitrary: s) (auto simp: bind_eq_Some_conv)

locale simulation =
  fixes f :: "'s \<Rightarrow> 'l \<Rightarrow> 's option" and acts :: "'s \<Rightarrow> 'l \<Rightarrow> 's \<Rightarrow> 'm list"
    and astep :: "'a \<Rightarrow> 'm \<Rightarrow> 'a \<Rightarrow> bool" and abstraction :: "'s \<Rightarrow> 'a"
    and inv :: "'s \<Rightarrow> bool" and scope :: "'s \<Rightarrow> bool"
  assumes scope_back: "f s ev = Some t \<Longrightarrow> scope t \<Longrightarrow> scope s"
    and inv_keeps: "f s ev = Some t \<Longrightarrow> inv s \<Longrightarrow> scope t \<Longrightarrow> inv t"
    and simulates: "f s ev = Some t \<Longrightarrow> inv s \<Longrightarrow> scope t \<Longrightarrow>
      run astep (abstraction s) (acts s ev t) (abstraction t)"
begin

lemma scope_along: "run_fun f evs s = Some t \<Longrightarrow> scope t \<Longrightarrow> scope s"
  by (induction evs arbitrary: s) (auto simp: bind_eq_Some_conv intro: scope_back)

lemma refines:
  "run_fun f evs s = Some t \<Longrightarrow> inv s \<Longrightarrow> scope t \<Longrightarrow>
   run astep (abstraction s) (observe f acts evs s) (abstraction t) \<and> inv t"
proof (induction evs arbitrary: s)
  case Nil
  then show ?case by (auto intro: run.none)
next
  case (Cons ev evs)
  then obtain u where u: "f s ev = Some u" and rest: "run_fun f evs u = Some t"
    by (auto simp: bind_eq_Some_conv)
  have "scope u" using scope_along [OF rest Cons.prems(3)] .
  with u Cons.prems have "run astep (abstraction s) (acts s ev u) (abstraction u)" "inv u"
    by (auto intro: simulates inv_keeps)
  with Cons.IH [OF rest _ Cons.prems(3)] u show ?case by (auto intro: run_append)
qed

end

end
