(* ===== verification/TxBuilder.thy ===== *)
theory TxBuilder
  imports Prelude
begin

text \<open>
  node/uhpo/src/transaction/builder.rs and the transaction data it builds. The bitcoin crate
  is not part of the repository: its data types are records with the fields the code sets or
  reads, a transaction id is the type \<open>'txid\<close>, and the operations the code calls on addresses,
  transactions and amounts are the fields of the record \<open>bitcoin\<close>. Amounts are \<open>u64\<close> satoshis;
  \<open>amount_add\<close> and \<open>amount_sub\<close> give None where the crate's operator panics.
\<close>

section \<open>Transactions\<close>

type_synonym Amount = u64
type_synonym ScriptBuf = bytes
type_synonym Witness = "bytes list"

record 'txid OutPoint =
  txid :: 'txid
  vout :: u32

record 'txid TxIn =
  previous_output :: "'txid OutPoint"
  script_sig :: ScriptBuf
  sequence :: u32
  witness :: Witness

record TxOut =
  txout_value :: Amount
  script_pubkey :: ScriptBuf

record 'txid Transaction =
  tx_version :: i32
  lock_time :: u32
  tx_input :: "'txid TxIn list"
  tx_output :: "TxOut list"

record ('txid, 'addr) bitcoin =
  compute_txid :: "'txid Transaction \<Rightarrow> 'txid"
  address_script :: "'addr \<Rightarrow> ScriptBuf"
  amount_add :: "Amount \<Rightarrow> Amount \<Rightarrow> Amount option"
  amount_sub :: "Amount \<Rightarrow> Amount \<Rightarrow> Amount option"

section \<open>The builder\<close>

record 'txid TransactionBuilder =
  building :: "'txid Transaction"

definition builder_new :: "'txid TransactionBuilder" where
  "builder_new = \<lparr>building = \<lparr>tx_version = 2, lock_time = 0, tx_input = [], tx_output = []\<rparr>\<rparr>"

definition add_input :: "'txid TransactionBuilder \<Rightarrow> 'txid \<Rightarrow> u32 \<Rightarrow> 'txid TransactionBuilder" where
  "add_input self tid n =
     self\<lparr>building := (building self)
       \<lparr>tx_input := tx_input (building self) @
         [\<lparr>previous_output = \<lparr>txid = tid, vout = n\<rparr>,
           script_sig = [],
           sequence = 0xFFFFFFFF,
           witness = []\<rparr>]\<rparr>\<rparr>"

definition add_output ::
    "('txid, 'addr) bitcoin \<Rightarrow> 'txid TransactionBuilder \<Rightarrow> 'addr \<Rightarrow> Amount
     \<Rightarrow> 'txid TransactionBuilder" where
  "add_output B self address amount =
     self\<lparr>building := (building self)
       \<lparr>tx_output := tx_output (building self) @
         [\<lparr>txout_value = amount, script_pubkey = address_script B address\<rparr>]\<rparr>\<rparr>"

definition builder_build :: "'txid TransactionBuilder \<Rightarrow> 'txid Transaction" where
  "builder_build self = building self"

lemmas builder_defs = builder_new_def add_input_def add_output_def builder_build_def

section \<open>Chains of builder calls\<close>

datatype ('txid, 'addr) build_call = AddInput 'txid u32 | AddOutput 'addr Amount

fun apply_call :: "('txid, 'addr) bitcoin \<Rightarrow> ('txid, 'addr) build_call
    \<Rightarrow> 'txid TransactionBuilder \<Rightarrow> 'txid TransactionBuilder" where
  "apply_call B (AddInput tid n) b = add_input b tid n"
| "apply_call B (AddOutput a v) b = add_output B b a v"

fun input_of :: "('txid, 'addr) build_call \<Rightarrow> 'txid TxIn list" where
  "input_of (AddInput tid n) =
     [\<lparr>previous_output = \<lparr>txid = tid, vout = n\<rparr>, script_sig = [], sequence = 0xFFFFFFFF, witness = []\<rparr>]"
| "input_of (AddOutput a v) = []"

fun output_of :: "('txid, 'addr) bitcoin \<Rightarrow> ('txid, 'addr) build_call \<Rightarrow> TxOut list" where
  "output_of B (AddInput tid n) = []"
| "output_of B (AddOutput a v) = [\<lparr>txout_value = v, script_pubkey = address_script B a\<rparr>]"

lemma fold_build_calls:
  "building (fold (apply_call B) calls b) =
     (building b)\<lparr>tx_input := tx_input (building b) @ concat (map input_of calls),
                  tx_output := tx_output (building b) @ concat (map (output_of B) calls)\<rparr>"
proof (induction calls arbitrary: b)
  case (Cons c calls)
  then show ?case by (cases c) (simp_all add: builder_defs)
qed simp

section \<open>Amounts\<close>

text \<open>
  The documented behaviour of \<open>Amount\<close>'s operators: exact, and a panic when the result does
  not fit.
\<close>

locale amount_ops =
  fixes add :: "Amount \<Rightarrow> Amount \<Rightarrow> Amount option"
    and sub :: "Amount \<Rightarrow> Amount \<Rightarrow> Amount option"
  assumes add_exact: "add a b = Some c \<longleftrightarrow> unat c = unat a + unat b"
    and sub_exact: "sub a b = Some c \<longleftrightarrow> unat c + unat b = unat a"
begin

lemma add_fits: "(\<exists>c. add a b = Some c) \<longleftrightarrow> unat a + unat b < 2 ^ 64"
proof
  assume "\<exists>c. add a b = Some c"
  then obtain c where "add a b = Some c" by blast
  then have "unat c = unat a + unat b" by (simp add: add_exact)
  then show "unat a + unat b < 2 ^ 64" using unsigned_less [of c, where ?'a = nat] by simp
next
  assume "unat a + unat b < 2 ^ 64"
  then have "unat (a + b) = unat a + unat b"
    by (simp add: unat_word_ariths)
  then show "\<exists>c. add a b = Some c" by (auto simp: add_exact)
qed

lemma sub_fits: "(\<exists>c. sub a b = Some c) \<longleftrightarrow> unat b \<le> unat a"
proof
  assume "unat b \<le> unat a"
  then have "unat (a - b) + unat b = unat a" by (simp add: unat_sub word_le_nat_alt)
  then show "\<exists>c. sub a b = Some c" by (auto simp: sub_exact)
qed (auto simp: sub_exact dest: sym)

end

text \<open>The checked operations of \<open>u64\<close>, on which \<open>Amount\<close> is a thin layer, satisfy it.\<close>

interpretation sats: amount_ops checked_add checked_sub
  by unfold_locales (rule checked_add_Some, rule checked_sub_Some)

section \<open>Properties\<close>

text \<open>
  A chain of builder calls, in whatever order inputs and outputs are interleaved, builds
  the version 2 transaction without lock time that has exactly the added inputs and outputs in
  call order, every input unsigned and final.
\<close>

theorem builder_builds_calls_in_order:
  "builder_build (fold (apply_call B) calls builder_new) =
     \<lparr>tx_version = 2, lock_time = 0,
      tx_input = concat (map input_of calls), tx_output = concat (map (output_of B) calls)\<rparr>"
  by (simp add: builder_build_def fold_build_calls) (simp add: builder_new_def)

end
