(* ===== verification/Signature.thy ===== *)
theory Signature
  imports TxBuilder
begin

text \<open>
  node/uhpo/src/error.rs and node/uhpo/src/crypto/signature.rs: the crate's error type and
  \<open>add_signature\<close>, which signs one input of a transaction. What the code calls on keys, the
  secp256k1 context and the sighash cache are the fields of the record \<open>crypto\<close>: the
  repository's traits for mocking are exactly this set of operations. The hypothesis on them is
  the definition \<open>sighash_laws\<close>.
\<close>

section \<open>Errors\<close>

datatype ('se, 'te) UhpoError =
    KeypairCreationError 'se
  | SignatureVerificationError 'se
  | TaprootError 'te
  | NoPrevUpdateTxOut
  | Other string

definition from_taproot_error :: "'te \<Rightarrow> ('se, 'te) UhpoError" where
  "from_taproot_error err = TaprootError err"

definition from_secp_error :: "'se \<Rightarrow> ('se, 'te) UhpoError" where
  "from_secp_error err = KeypairCreationError err"

text \<open>\<open>Display\<close>, with the formatting of the wrapped errors as parameters.\<close>

fun fmt :: "('se \<Rightarrow> string) \<Rightarrow> ('te \<Rightarrow> string) \<Rightarrow> ('se, 'te) UhpoError \<Rightarrow> string" where
  "fmt fmt_se fmt_te (KeypairCreationError err) = ''Keypair creation error: '' @ fmt_se err"
| "fmt fmt_se fmt_te (TaprootError err) = ''Taproot error: '' @ fmt_te err"
| "fmt fmt_se fmt_te (SignatureVerificationError err) =
     ''Signature verification error: '' @ fmt_se err"
| "fmt fmt_se fmt_te NoPrevUpdateTxOut = ''No previous update transaction output provided''"
| "fmt fmt_se fmt_te (Other msg) = ''Other error: '' @ msg"

definition UhpoError_new :: "string \<Rightarrow> ('se, 'te) UhpoError" where
  "UhpoError_new msg = Other msg"

section \<open>Signing\<close>

text \<open>
  \<open>'sk\<close> is the secret key \<open>S\<close>, \<open>'k\<close> the generic keypair \<open>K\<close>, \<open>'kp\<close> the concrete
  \<open>Keypair\<close>, \<open>'pk\<close> the x-only public key, \<open>'tw\<close> the scalar tweak. The sighash is computed
  with \<open>Prevouts::All\<close> and \<open>TapSighashType::All\<close>; the message is its 32 bytes.
\<close>

record ('txid, 'sk, 'k, 'kp, 'pk, 'tw, 'rng, 'sig, 'te, 'se) crypto =
  keypair :: "'sk \<Rightarrow> 'k"
  add_xonly_tweak :: "'k \<Rightarrow> 'tw \<Rightarrow> 'se + 'kp"
  to_keypair :: "'k \<Rightarrow> 'kp"
  key_spend_sighash :: "'txid Transaction \<Rightarrow> nat \<Rightarrow> TxOut list \<Rightarrow> 'te + bytes"
  sign_schnorr_with_rng :: "bytes \<Rightarrow> 'kp \<Rightarrow> 'rng \<Rightarrow> 'sig"
  verify_schnorr :: "'sig \<Rightarrow> bytes \<Rightarrow> 'pk \<Rightarrow> 'se + unit"
  x_only_public_key :: "'kp \<Rightarrow> 'pk"
  serialize_sig :: "'sig \<Rightarrow> bytes"

text \<open>
  The implementation of the traits for the types of secp256k1, where \<open>K\<close> is \<open>Keypair\<close> itself:
  each method calls the inherent method of its name, \<open>to_keypair\<close> clones. The sighash, the public
  key and the serialization are not behind the traits.
\<close>

record ('sk, 'kp, 'pk, 'tw, 'rng, 'sig, 'se) secp256k1 =
  SecretKey_keypair :: "'sk \<Rightarrow> 'kp"
  Keypair_add_xonly_tweak :: "'kp \<Rightarrow> 'tw \<Rightarrow> 'se + 'kp"
  Secp256k1_sign_schnorr_with_rng :: "bytes \<Rightarrow> 'kp \<Rightarrow> 'rng \<Rightarrow> 'sig"
  Secp256k1_verify_schnorr :: "'sig \<Rightarrow> bytes \<Rightarrow> 'pk \<Rightarrow> 'se + unit"

definition concrete_crypto ::
    "('sk, 'kp, 'pk, 'tw, 'rng, 'sig, 'se) secp256k1 \<Rightarrow> ('txid Transaction \<Rightarrow> nat \<Rightarrow> TxOut list \<Rightarrow> 'te + bytes)
     \<Rightarrow> ('kp \<Rightarrow> 'pk) \<Rightarrow> ('sig \<Rightarrow> bytes) \<Rightarrow> ('txid, 'sk, 'kp, 'kp, 'pk, 'tw, 'rng, 'sig, 'te, 'se) crypto" where
  "concrete_crypto secp sighash x_only serialize =
     \<lparr>keypair = (\<lambda>sk. SecretKey_keypair secp sk),
      add_xonly_tweak = (\<lambda>kp tweak. Keypair_add_xonly_tweak secp kp tweak),
      to_keypair = (\<lambda>kp. kp),
      key_spend_sighash = sighash,
      sign_schnorr_with_rng = (\<lambda>msg kp rng. Secp256k1_sign_schnorr_with_rng secp msg kp rng),
      verify_schnorr = (\<lambda>signature msg pubkey. Secp256k1_verify_schnorr secp signature msg pubkey),
      x_only_public_key = x_only, serialize_sig = serialize\<rparr>"

definition signing_keypair ::
    "('txid, 'sk, 'k, 'kp, 'pk, 'tw, 'rng, 'sig, 'te, 'se) crypto \<Rightarrow> 'sk \<Rightarrow> 'tw option
     \<Rightarrow> ('kp, ('se, 'te) UhpoError) outcome" where
  "signing_keypair C private_key tweak =
     (case tweak of
        Some t \<Rightarrow> map_err KeypairCreationError (add_xonly_tweak C (keypair C private_key) t)
      | None \<Rightarrow> Ok (to_keypair C (keypair C private_key)))"

text \<open>The signature with the sighash type byte appended, computed and verified.\<close>

definition signature_bytes ::
    "('txid, 'sk, 'k, 'kp, 'pk, 'tw, 'rng, 'sig, 'te, 'se) crypto \<Rightarrow> 'txid Transaction \<Rightarrow> nat
     \<Rightarrow> TxOut list \<Rightarrow> 'sk \<Rightarrow> 'tw option \<Rightarrow> 'rng \<Rightarrow> (bytes, ('se, 'te) UhpoError) outcome" where
  "signature_bytes C tx input_idx prevouts private_key tweak rng =
     and_then (signing_keypair C private_key tweak) (\<lambda>kp.
     and_then (map_err from_taproot_error (key_spend_sighash C tx input_idx prevouts)) (\<lambda>msg.
     let signature = sign_schnorr_with_rng C msg kp rng in
     and_then (map_err SignatureVerificationError
       (verify_schnorr C signature msg (x_only_public_key C kp))) (\<lambda>_.
     Ok (serialize_sig C signature @ [0x01]))))"

definition push_witness ::
    "'txid Transaction \<Rightarrow> nat \<Rightarrow> bytes \<Rightarrow> (unit, 'e) outcome \<times> 'txid Transaction" where
  "push_witness tx i item =
     (if i < length (tx_input tx)
      then (Ok (), tx\<lparr>tx_input := (tx_input tx)[i := (tx_input tx ! i)\<lparr>witness := witness (tx_input tx ! i) @ [item]\<rparr>]\<rparr>)
      else (Panic oob, tx))"

definition add_signature ::
    "('txid, 'sk, 'k, 'kp, 'pk, 'tw, 'rng, 'sig, 'te, 'se) crypto \<Rightarrow> 'txid Transaction \<Rightarrow> nat
     \<Rightarrow> TxOut list \<Rightarrow> 'sk \<Rightarrow> 'tw option \<Rightarrow> 'rng
     \<Rightarrow> (unit, ('se, 'te) UhpoError) outcome \<times> 'txid Transaction" where
  "add_signature C tx input_idx prevouts private_key tweak rng =
     (case signature_bytes C tx input_idx prevouts private_key tweak rng of
        Ok vec_sig \<Rightarrow> push_witness tx input_idx vec_sig
      | Err e \<Rightarrow> (Err e, tx)
      | Panic p \<Rightarrow> (Panic p, tx))"

section \<open>Hypotheses on the libraries\<close>

text \<open>The transaction without its witnesses.\<close>

definition unsigned_tx :: "'txid Transaction \<Rightarrow> 'txid Transaction" where
  "unsigned_tx tx = tx\<lparr>tx_input := map (\<lambda>i. i\<lparr>witness := []\<rparr>) (tx_input tx)\<rparr>"

text \<open>
  Documented behaviour of \<open>taproot_key_spend_signature_hash\<close> with \<open>Prevouts::All\<close> and
  \<open>TapSighashType::All\<close>: it is an error unless there is one previous output per input, and the
  hash does not commit to witnesses (BIP 341). The index is not checked, only hashed.
\<close>

definition sighash_laws :: "('txid Transaction \<Rightarrow> nat \<Rightarrow> TxOut list \<Rightarrow> 'te + bytes) \<Rightarrow> bool" where
  "sighash_laws sighash \<longleftrightarrow>
     (\<forall>tx i ps d. sighash tx i ps = Inr d \<longrightarrow> length ps = length (tx_input tx)) \<and>
     (\<forall>tx tx' i ps. unsigned_tx tx = unsigned_tx tx' \<longrightarrow> sighash tx i ps = sighash tx' i ps)"

lemma sighash_prevouts: "sighash_laws h \<Longrightarrow> h tx i ps = Inr d \<Longrightarrow> length ps = length (tx_input tx)"
  unfolding sighash_laws_def by blast

lemma sighash_unsigned: "sighash_laws h \<Longrightarrow> unsigned_tx tx = unsigned_tx tx' \<Longrightarrow> h tx i ps = h tx' i ps"
  unfolding sighash_laws_def by blast

section \<open>What add_signature does\<close>

lemma signature_bytes_Ok:
  "signature_bytes C tx i ps sk tw rng = Ok v \<longleftrightarrow>
   (\<exists>kp msg. signing_keypair C sk tw = Ok kp \<and> key_spend_sighash C tx i ps = Inr msg \<and>
      verify_schnorr C (sign_schnorr_with_rng C msg kp rng) msg (x_only_public_key C kp) = Inr () \<and>
      v = serialize_sig C (sign_schnorr_with_rng C msg kp rng) @ [1])"
  by (auto simp: signature_bytes_def outcome_simps Let_def)

text \<open>With the concrete types: the secret key's own keypair, tweaked when a tweak is given.\<close>

lemma concrete_signing_keypair:
  "signing_keypair (concrete_crypto secp sighash x_only serialize) sk tw =
     (case tw of
        None \<Rightarrow> Ok (SecretKey_keypair secp sk)
      | Some t \<Rightarrow> map_err KeypairCreationError (Keypair_add_xonly_tweak secp (SecretKey_keypair secp sk) t))"
  by (simp add: signing_keypair_def concrete_crypto_def split: option.split)

lemma signing_keypair_no_panic [simp]: "signing_keypair C sk tw \<noteq> Panic p"
  by (simp add: signing_keypair_def split: option.split)

lemma signature_bytes_no_panic [simp]: "signature_bytes C tx i ps sk tw rng \<noteq> Panic p"
  by (simp add: signature_bytes_def outcome_simps Let_def)

lemma map_update_same: "i < length xs \<Longrightarrow> (map f xs)[i := f (xs ! i)] = map f xs"
  by (simp add: list_update_same_conv)

lemma unsigned_push_witness [simp]: "unsigned_tx (snd (push_witness tx i v)) = unsigned_tx tx"
  by (simp add: push_witness_def unsigned_tx_def map_update map_update_same)

lemma add_signature_cases [consumes 1, case_names failed signed out_of_range]:
  assumes "add_signature C tx i ps sk tw rng = (r, tx')"
  obtains e where "r = Err e" "tx' = tx" "signature_bytes C tx i ps sk tw rng = Err e"
    | v where "r = Ok ()" "signature_bytes C tx i ps sk tw rng = Ok v" "i < length (tx_input tx)"
      "tx' = tx\<lparr>tx_input := (tx_input tx)[i := (tx_input tx ! i)\<lparr>witness := witness (tx_input tx ! i) @ [v]\<rparr>]\<rparr>"
    | v where "r = Panic oob" "tx' = tx" "signature_bytes C tx i ps sk tw rng = Ok v"
      "length (tx_input tx) \<le> i"
  using assms
  by (cases "signature_bytes C tx i ps sk tw rng")
    (auto simp: add_signature_def push_witness_def split: if_splits)

lemma unsigned_add_signature:
  "unsigned_tx (snd (add_signature C tx i ps sk tw rng)) = unsigned_tx tx"
  by (simp add: add_signature_def split: outcome.split)

lemma add_signature_output [simp]: "tx_output (snd (add_signature C tx i ps sk tw rng)) = tx_output tx"
  by (simp add: add_signature_def push_witness_def split: outcome.split)

lemma add_signature_inputs [simp]:
  "length (tx_input (snd (add_signature C tx i ps sk tw rng))) = length (tx_input tx)"
  by (simp add: add_signature_def push_witness_def split: outcome.split)

text \<open>
  Libraries that work: verifying what was just signed succeeds, and the sighash exists for an input
  with its previous outputs given. Tweaking may fail: the library documents an error for a tweak
  that makes the key invalid.
\<close>

definition crypto_works ::
    "('txid, 'sk, 'k, 'kp, 'pk, 'tw, 'rng, 'sig, 'te, 'se) crypto \<Rightarrow> bool" where
  "crypto_works C \<longleftrightarrow>
     (\<forall>msg kp rng. verify_schnorr C (sign_schnorr_with_rng C msg kp rng) msg (x_only_public_key C kp) = Inr ()) \<and>
     (\<forall>tx i ps. i < length (tx_input tx) \<longrightarrow> length ps = length (tx_input tx) \<longrightarrow>
        (\<exists>msg. key_spend_sighash C tx i ps = Inr msg))"

lemma works_sighash:
  assumes "crypto_works C" and "i < length (tx_input tx)" and "length ps = length (tx_input tx)"
  obtains msg where "key_spend_sighash C tx i ps = Inr msg"
  using assms unfolding crypto_works_def by meson

lemma works_item:
  assumes works: "crypto_works C" and i: "i < length (tx_input tx)" and ps: "length ps = length (tx_input tx)"
    and key: "signing_keypair C sk tw = Ok kp"
  shows "\<exists>v. signature_bytes C tx i ps sk tw rng = Ok v"
proof -
  obtain msg where "key_spend_sighash C tx i ps = Inr msg"
    using works_sighash [OF works i ps] .
  moreover have "verify_schnorr C (sign_schnorr_with_rng C msg kp rng) msg (x_only_public_key C kp) = Inr ()"
    using works by (simp add: crypto_works_def)
  ultimately show ?thesis using key by (simp add: signature_bytes_def Let_def)
qed

lemma works_signs:
  assumes "crypto_works C" and i: "i < length (tx_input tx)" and "length ps = length (tx_input tx)"
    and "signing_keypair C sk tw = Ok kp"
  shows "\<exists>v. add_signature C tx i ps sk tw rng =
    (Ok (), tx\<lparr>tx_input := (tx_input tx)[i := (tx_input tx ! i)\<lparr>witness := witness (tx_input tx ! i) @ [v]\<rparr>]\<rparr>)"
  using works_item [OF assms, of rng] i by (auto simp: add_signature_def push_witness_def)

text \<open>
  An instance of the operations that satisfies the hypotheses, for the closed examples: a key
  is a number, tweaking adds, and a signature is the key's number repeated over 64 bytes.
\<close>

definition sample_secp :: "(nat, nat, nat, nat, nat, nat, unit) secp256k1" where
  "sample_secp =
     \<lparr>SecretKey_keypair = (\<lambda>sk. sk), Keypair_add_xonly_tweak = (\<lambda>k t. Inr (k + t)),
      Secp256k1_sign_schnorr_with_rng = (\<lambda>msg kp rng. kp),
      Secp256k1_verify_schnorr = (\<lambda>s msg pk. if s = pk then Inr () else Inl ())\<rparr>"

definition sample_crypto :: "(nat, nat, nat, nat, nat, nat, nat, nat, unit, unit) crypto" where
  "sample_crypto =
     \<lparr>keypair = (\<lambda>sk. sk), add_xonly_tweak = (\<lambda>k t. Inr (k + t)), to_keypair = (\<lambda>k. k),
      key_spend_sighash = (\<lambda>tx i ps.
        if length ps = length (tx_input tx) then Inr [word_of_nat i] else Inl ()),
      sign_schnorr_with_rng = (\<lambda>msg kp rng. kp),
      verify_schnorr = (\<lambda>s msg pk. if s = pk then Inr () else Inl ()),
      x_only_public_key = (\<lambda>kp. kp), serialize_sig = (\<lambda>s. replicate 64 (word_of_nat s))\<rparr>"

lemma sample_crypto_concrete:
  "sample_crypto = concrete_crypto sample_secp
     (\<lambda>tx i ps. if length ps = length (tx_input tx) then Inr [word_of_nat i] else Inl ())
     (\<lambda>kp. kp) (\<lambda>s. replicate 64 (word_of_nat s))"
  by (simp add: sample_crypto_def concrete_crypto_def sample_secp_def)

lemma unsigned_tx_inputs: "unsigned_tx tx = unsigned_tx tx' \<Longrightarrow> length (tx_input tx) = length (tx_input tx')"
  by (drule arg_cong [where f = "\<lambda>t. length (tx_input t)"]) (simp add: unsigned_tx_def)

lemma sample_sighash_laws: "sighash_laws (key_spend_sighash sample_crypto)"
  unfolding sighash_laws_def sample_crypto_def by (auto dest: unsigned_tx_inputs split: if_splits)

lemma sample_works: "crypto_works sample_crypto"
  by (simp add: crypto_works_def sample_crypto_def)

text \<open>
  Why signing fails, in the order of the code: a bad tweak is a keypair error before any hashing, a
  sighash failure a Taproot error before any signing, and a signature that does not verify a
  verification error.
\<close>

definition signing_error ::
    "('txid, 'sk, 'k, 'kp, 'pk, 'tw, 'rng, 'sig, 'te, 'se) crypto \<Rightarrow> 'txid Transaction \<Rightarrow> nat \<Rightarrow> TxOut list
     \<Rightarrow> 'sk \<Rightarrow> 'tw option \<Rightarrow> 'rng \<Rightarrow> ('se, 'te) UhpoError \<Rightarrow> bool" where
  "signing_error C tx i ps sk tw rng e \<longleftrightarrow>
     (\<exists>x. signing_keypair C sk tw = Err (KeypairCreationError x) \<and> e = KeypairCreationError x) \<or>
     (\<exists>kp x. signing_keypair C sk tw = Ok kp \<and> key_spend_sighash C tx i ps = Inl x \<and> e = TaprootError x) \<or>
     (\<exists>kp msg x. signing_keypair C sk tw = Ok kp \<and> key_spend_sighash C tx i ps = Inr msg \<and>
        verify_schnorr C (sign_schnorr_with_rng C msg kp rng) msg (x_only_public_key C kp) = Inl x \<and>
        e = SignatureVerificationError x)"

lemma signature_bytes_Err:
  "signature_bytes C tx i ps sk tw rng = Err e \<longleftrightarrow> signing_error C tx i ps sk tw rng e"
  by (auto simp: signing_error_def signature_bytes_def outcome_simps Let_def from_taproot_error_def
      signing_keypair_def split: option.splits)

section \<open>Properties\<close>

text \<open>
  C23. Signing one input is all or nothing. It succeeds exactly when the key can be tweaked, the
  sighash exists, the fresh signature verifies under the (possibly tweaked) key, and the index is
  an input; then exactly one witness item is appended to that input, the serialized signature
  followed by the sighash byte 0x01, and no other input, no output and no other field changes.
  Otherwise the transaction is untouched: the error is that of the first step that failed, and if
  all steps succeed for an index that is no input, which the sighash does not check, the call
  panics.
\<close>

theorem add_signature_all_or_nothing:
  "case add_signature C tx i ps sk tw rng of (r, tx') \<Rightarrow>
    (\<exists>kp msg sig. signing_keypair C sk tw = Ok kp \<and> key_spend_sighash C tx i ps = Inr msg \<and>
       sig = sign_schnorr_with_rng C msg kp rng \<and> verify_schnorr C sig msg (x_only_public_key C kp) = Inr () \<and>
       (if i < length (tx_input tx)
        then r = Ok () \<and> tx' = tx\<lparr>tx_input := (tx_input tx)[i := (tx_input tx ! i)
          \<lparr>witness := witness (tx_input tx ! i) @ [serialize_sig C sig @ [1]]\<rparr>]\<rparr>
        else r = Panic oob \<and> tx' = tx)) \<or>
    (\<exists>e. r = Err e \<and> tx' = tx \<and> signing_error C tx i ps sk tw rng e)"
proof (cases "add_signature C tx i ps sk tw rng")
  case (Pair r tx')
  then show ?thesis
    by (cases rule: add_signature_cases) (auto simp: Pair signature_bytes_Ok signature_bytes_Err)
qed

text \<open>The three outcomes on the concrete operations: one input, signed with an index in range, one
  previous output too many, and an index out of range.\<close>

definition one_coin :: "nat Transaction" where
  "one_coin = \<lparr>tx_version = 2, lock_time = 0, tx_input =
     [\<lparr>previous_output = \<lparr>txid = 7, vout = 0\<rparr>, script_sig = [], sequence = 0, witness = []\<rparr>], tx_output = []\<rparr>"

lemma add_signature_outcomes:
  "fst (add_signature sample_crypto one_coin 0 [out] 3 (Some 4) 0) = Ok ()"
  "fst (add_signature sample_crypto one_coin 0 [out, out] 3 (Some 4) 0) = Err (TaprootError ())"
  "fst (add_signature sample_crypto one_coin 1 [out] 3 (Some 4) 0) = Panic oob"
  by (simp_all add: sample_crypto_def one_coin_def add_signature_def signature_bytes_def signing_keypair_def
      push_witness_def from_taproot_error_def)

end
