(* ===== verification/Payout.thy ===== *)
theory Payout
  imports Signature
begin

text \<open>
  node/uhpo/src/payout_update.rs: \<open>PayoutUpdate::new\<close>, which builds the transaction of an
  Eltoo style payout update from the coinbase and the previous update, the two methods that
  sign its inputs, and \<open>build\<close>. A payout update under construction is a small state
  machine: created once, then signed by any sequence of calls.
\<close>

section \<open>Creation\<close>

record 'txid PayoutUpdate =
  transaction :: "'txid Transaction"
  coinbase_txout :: TxOut
  prev_update_txout :: "TxOut option"

abbreviation add_error :: string where "add_error \<equiv> ''Amount addition error''"
abbreviation sub_error :: string where "sub_error \<equiv> ''Amount subtraction error''"

text \<open>\<open>std::fmt::Error\<close>, the error type of \<open>new\<close>, has a single value: \<open>unit\<close>.\<close>

definition payout_new ::
    "('txid, 'addr) bitcoin \<Rightarrow> 'txid Transaction option \<Rightarrow> 'txid Transaction \<Rightarrow> 'addr \<Rightarrow> Amount
     \<Rightarrow> ('txid PayoutUpdate, unit) outcome" where
  "payout_new B prev_update_tx coinbase_tx next_out_address projected_fee =
     and_then (index (tx_output coinbase_tx) 0) (\<lambda>cb_txout.
     let builder = add_input builder_new (compute_txid B coinbase_tx) 0 in
     and_then
       (case prev_update_tx of
          Some tx \<Rightarrow>
            (let builder = add_input builder (compute_txid B tx) 0 in
             and_then (index (tx_output tx) 0) (\<lambda>txout. Ok (builder, Some txout)))
        | None \<Rightarrow> Ok (builder, None)) (\<lambda>(builder, prev_txout).
     and_then
       (case prev_txout of
          None \<Rightarrow> Ok (txout_value cb_txout)
        | Some txout \<Rightarrow> expect add_error (amount_add B (txout_value cb_txout) (txout_value txout)))
       (\<lambda>total_amount.
     and_then (expect sub_error (amount_sub B total_amount projected_fee)) (\<lambda>amount.
     Ok \<lparr>transaction = builder_build (add_output B builder next_out_address amount),
         coinbase_txout = cb_txout,
         prev_update_txout = prev_txout\<rparr>))))"

section \<open>Signing\<close>

text \<open>The previous outputs, in the order of the inputs they belong to.\<close>

definition prevouts :: "'txid PayoutUpdate \<Rightarrow> TxOut list" where
  "prevouts self =
     (case prev_update_txout self of
        Some txout \<Rightarrow> [coinbase_txout self, txout]
      | None \<Rightarrow> [coinbase_txout self])"

definition add_coinbase_sig ::
    "('txid, 'sk, 'k, 'kp, 'pk, 'tw, 'rng, 'sig, 'te, 'se) crypto \<Rightarrow> 'txid PayoutUpdate \<Rightarrow> 'sk
     \<Rightarrow> 'tw option \<Rightarrow> 'rng \<Rightarrow> (unit, ('se, 'te) UhpoError) outcome \<times> 'txid PayoutUpdate" where
  "add_coinbase_sig C self private_key tweak rng =
     (case add_signature C (transaction self) 0 (prevouts self) private_key tweak rng of
        (r, tx) \<Rightarrow> (r, self\<lparr>transaction := tx\<rparr>))"

definition add_prev_update_sig ::
    "('txid, 'sk, 'k, 'kp, 'pk, 'tw, 'rng, 'sig, 'te, 'se) crypto \<Rightarrow> 'txid PayoutUpdate \<Rightarrow> 'sk
     \<Rightarrow> 'tw option \<Rightarrow> 'rng \<Rightarrow> (unit, ('se, 'te) UhpoError) outcome \<times> 'txid PayoutUpdate" where
  "add_prev_update_sig C self private_key tweak rng =
     (case ok_or NoPrevUpdateTxOut (prev_update_txout self) of
        Ok txout \<Rightarrow>
          (case add_signature C (transaction self) 1 [coinbase_txout self, txout]
                 private_key tweak rng of
             (r, tx) \<Rightarrow> (r, self\<lparr>transaction := tx\<rparr>))
      | Err e \<Rightarrow> (Err e, self)
      | Panic p \<Rightarrow> (Panic p, self))"

definition payout_build :: "'txid PayoutUpdate \<Rightarrow> 'txid Transaction" where
  "payout_build self = transaction self"

section \<open>Facts about new\<close>

text \<open>The value the inputs bring in, as a number.\<close>

definition inputs_value :: "'txid Transaction option \<Rightarrow> 'txid Transaction \<Rightarrow> nat" where
  "inputs_value prev coinbase =
     unat (txout_value (tx_output coinbase ! 0)) +
     (case prev of None \<Rightarrow> 0 | Some tx \<Rightarrow> unat (txout_value (tx_output tx ! 0)))"

definition spends :: "'txid \<Rightarrow> 'txid TxIn" where
  "spends t = \<lparr>previous_output = \<lparr>txid = t, vout = 0\<rparr>, script_sig = [], sequence = 0xFFFFFFFF, witness = []\<rparr>"

lemma payout_new_Ok:
  assumes "amount_ops (amount_add B) (amount_sub B)"
    and "payout_new B prev coinbase addr fee = Ok pu"
  shows "tx_output coinbase \<noteq> [] \<and> (\<forall>tx. prev = Some tx \<longrightarrow> tx_output tx \<noteq> []) \<and>
    (\<exists>amount. unat amount + unat fee = inputs_value prev coinbase \<and>
       pu = \<lparr>transaction =
               \<lparr>tx_version = 2, lock_time = 0,
                tx_input = spends (compute_txid B coinbase) #
                  (case prev of None \<Rightarrow> [] | Some tx \<Rightarrow> [spends (compute_txid B tx)]),
                tx_output = [\<lparr>txout_value = amount, script_pubkey = address_script B addr\<rparr>]\<rparr>,
             coinbase_txout = tx_output coinbase ! 0,
             prev_update_txout = map_option (\<lambda>tx. tx_output tx ! 0) prev\<rparr>)"
  using assms(2) amount_ops.add_exact [OF assms(1)] amount_ops.sub_exact [OF assms(1)]
  by (cases prev)
    (auto simp: payout_new_def Let_def outcome_simps inputs_value_def spends_def builder_defs)

lemma payout_new_total_fits:
  assumes "amount_ops (amount_add B) (amount_sub B)"
    and "payout_new B prev coinbase addr fee = Ok pu"
  shows "inputs_value prev coinbase < 2 ^ 64"
proof (cases prev)
  case None
  then show ?thesis
    using unsigned_less [of "txout_value (tx_output coinbase ! 0)", where ?'a = nat]
    by (simp add: inputs_value_def)
next
  case (Some tx)
  with assms(2) obtain c where
    "amount_add B (txout_value (tx_output coinbase ! 0)) (txout_value (tx_output tx ! 0)) = Some c"
    by (auto simp: payout_new_def Let_def outcome_simps)
  then have "unat c = inputs_value prev coinbase"
    using Some by (simp add: amount_ops.add_exact [OF assms(1)] inputs_value_def)
  then show ?thesis using unsigned_less [of c, where ?'a = nat] by simp
qed

lemma payout_new_no_Err: "payout_new B prev coinbase addr fee \<noteq> Err e"
  by (auto simp: payout_new_def Let_def outcome_simps split: option.splits prod.splits)

lemma payout_new_succeeds:
  assumes "amount_ops (amount_add B) (amount_sub B)"
    and "tx_output coinbase \<noteq> []" and "\<forall>tx. prev = Some tx \<longrightarrow> tx_output tx \<noteq> []"
    and "inputs_value prev coinbase < 2 ^ 64" and "unat fee \<le> inputs_value prev coinbase"
  shows "\<exists>pu. payout_new B prev coinbase addr fee = Ok pu"
proof -
  obtain total where total: "unat total = inputs_value prev coinbase"
    "(case map_option (\<lambda>tx. tx_output tx ! 0) prev of
        None \<Rightarrow> Ok (txout_value (tx_output coinbase ! 0))
      | Some txout \<Rightarrow> expect add_error (amount_add B (txout_value (tx_output coinbase ! 0))
          (txout_value txout))) = (Ok total :: (Amount, unit) outcome)"
  proof (cases prev)
    case None
    then show ?thesis using that by (simp add: inputs_value_def)
  next
    case (Some tx)
    with assms(4) amount_ops.add_fits [OF assms(1)] obtain c where
      "amount_add B (txout_value (tx_output coinbase ! 0)) (txout_value (tx_output tx ! 0)) = Some c"
      by (fastforce simp: inputs_value_def)
    moreover from this have "unat c = inputs_value prev coinbase"
      using Some by (simp add: amount_ops.add_exact [OF assms(1)] inputs_value_def)
    ultimately show ?thesis using that Some by simp
  qed
  moreover from total(1) assms(5) obtain amount where "amount_sub B total fee = Some amount"
    using amount_ops.sub_fits [OF assms(1), of total fee] by auto
  ultimately show ?thesis using assms(2,3)
    by (cases prev) (auto simp: payout_new_def Let_def index_def)
qed

section \<open>The invariant of a payout update\<close>

text \<open>One input per previous output; what \<open>new\<close> establishes and signing keeps.\<close>

definition payout_wf :: "'txid PayoutUpdate \<Rightarrow> bool" where
  "payout_wf self \<longleftrightarrow> length (tx_input (transaction self)) = length (prevouts self)"

lemma payout_new_wf:
  "amount_ops (amount_add B) (amount_sub B) \<Longrightarrow> payout_new B prev coinbase addr fee = Ok pu \<Longrightarrow>
   payout_wf pu"
  by (drule (1) payout_new_Ok) (auto simp: payout_wf_def prevouts_def split: option.splits)

text \<open>A call to one of the two signing methods.\<close>

datatype ('sk, 'tw, 'rng) sign_call =
    SignCoinbase 'sk "'tw option" 'rng
  | SignPrevUpdate 'sk "'tw option" 'rng

fun apply_sign ::
    "('txid, 'sk, 'k, 'kp, 'pk, 'tw, 'rng, 'sig, 'te, 'se) crypto \<Rightarrow> ('sk, 'tw, 'rng) sign_call
     \<Rightarrow> 'txid PayoutUpdate \<Rightarrow> (unit, ('se, 'te) UhpoError) outcome \<times> 'txid PayoutUpdate" where
  "apply_sign C (SignCoinbase sk tw rng) self = add_coinbase_sig C self sk tw rng"
| "apply_sign C (SignPrevUpdate sk tw rng) self = add_prev_update_sig C self sk tw rng"

fun apply_signs where
  "apply_signs C [] self = ([], self)"
| "apply_signs C (c # cs) self =
     (case apply_sign C c self of (r, self') \<Rightarrow>
        (case apply_signs C cs self' of (rs, self'') \<Rightarrow> (r # rs, self'')))"

lemma add_coinbase_sig_snd:
  "snd (add_coinbase_sig C self sk tw rng) =
   self\<lparr>transaction := snd (add_signature C (transaction self) 0 (prevouts self) sk tw rng)\<rparr>"
  by (simp add: add_coinbase_sig_def split: prod.split)

lemma add_prev_update_sig_None:
  "prev_update_txout self = None \<Longrightarrow> add_prev_update_sig C self sk tw rng = (Err NoPrevUpdateTxOut, self)"
  by (simp add: add_prev_update_sig_def)

lemma add_prev_update_sig_Some:
  "prev_update_txout self = Some txout \<Longrightarrow> add_prev_update_sig C self sk tw rng =
     (case add_signature C (transaction self) 1 (prevouts self) sk tw rng of
        (r, tx) \<Rightarrow> (r, self\<lparr>transaction := tx\<rparr>))"
  by (simp add: add_prev_update_sig_def prevouts_def)

text \<open>What signing never changes: the previous outputs and the transaction without witnesses.\<close>

definition frame :: "'txid PayoutUpdate \<Rightarrow> 'txid Transaction \<times> TxOut \<times> TxOut option" where
  "frame self = (unsigned_tx (transaction self), coinbase_txout self, prev_update_txout self)"

lemma add_prev_update_sig_snd:
  "prev_update_txout self = Some txout \<Longrightarrow> snd (add_prev_update_sig C self sk tw rng) =
   self\<lparr>transaction := snd (add_signature C (transaction self) 1 (prevouts self) sk tw rng)\<rparr>"
  by (simp add: add_prev_update_sig_Some split: prod.split)

lemma apply_sign_frame: "frame (snd (apply_sign C c self)) = frame self"
proof (cases c)
  case (SignCoinbase sk tw rng)
  then show ?thesis by (simp add: frame_def add_coinbase_sig_snd unsigned_add_signature)
next
  case (SignPrevUpdate sk tw rng)
  then show ?thesis
    by (cases "prev_update_txout self")
      (simp_all add: frame_def add_prev_update_sig_None add_prev_update_sig_snd unsigned_add_signature)
qed

text \<open>The input a call signs, and the bytes it appends when it succeeds.\<close>

fun sign_index :: "('sk, 'tw, 'rng) sign_call \<Rightarrow> nat" where
  "sign_index (SignCoinbase sk tw rng) = 0"
| "sign_index (SignPrevUpdate sk tw rng) = 1"

fun sign_item where
  "sign_item C (SignCoinbase sk tw rng) tx ps = signature_bytes C tx 0 ps sk tw rng"
| "sign_item C (SignPrevUpdate sk tw rng) tx ps = signature_bytes C tx 1 ps sk tw rng"

definition witness_at :: "'txid PayoutUpdate \<Rightarrow> nat \<Rightarrow> Witness" where
  "witness_at self i = witness (tx_input (transaction self) ! i)"

lemma frame_prevouts: "frame self = frame self' \<Longrightarrow> prevouts self = prevouts self'"
  unfolding frame_def prevouts_def by (auto split: option.split)

lemma frame_inputs:
  "frame self = frame self' \<Longrightarrow>
   length (tx_input (transaction self)) = length (tx_input (transaction self'))"
  by (auto simp: frame_def dest: unsigned_tx_inputs)

lemma frame_wf: "frame self = frame self' \<Longrightarrow> payout_wf self = payout_wf self'"
  unfolding payout_wf_def by (metis frame_inputs frame_prevouts)

lemma frame_sighash:
  "sighash_laws h \<Longrightarrow> frame self = frame self' \<Longrightarrow>
   h (transaction self) i (prevouts self) = h (transaction self') i (prevouts self')"
  by (metis frame_def frame_prevouts sighash_unsigned prod.inject)

lemma frame_sign_item:
  assumes "sighash_laws (key_spend_sighash C)" and "frame self = frame self'"
  shows "sign_item C c (transaction self) (prevouts self) =
         sign_item C c (transaction self') (prevouts self')"
  by (cases c) (simp_all add: signature_bytes_def frame_sighash [OF assms])

lemma wf_has_prev: "payout_wf self \<Longrightarrow> prev_update_txout self = Some txout \<Longrightarrow>
   length (tx_input (transaction self)) = 2"
  by (simp add: payout_wf_def prevouts_def)

lemma wf_has_input: "payout_wf self \<Longrightarrow> 0 < length (tx_input (transaction self))"
  by (simp add: payout_wf_def prevouts_def split: option.splits)

text \<open>
  One call on a well-formed payout update: it fails and changes nothing, or it succeeds and
  appends its item to the witness of its own input only.
\<close>

lemma apply_sign_cases [consumes 2, case_names failed signed]:
  assumes "apply_sign C c self = (r, self')" and "payout_wf self"
  obtains e where "r = Err e" "self' = self"
    | v where "r = Ok ()" "sign_item C c (transaction self) (prevouts self) = Ok v"
      "sign_index c < length (tx_input (transaction self))"
      "witness_at self' (sign_index c) = witness_at self (sign_index c) @ [v]"
      "\<And>i. i \<noteq> sign_index c \<Longrightarrow> witness_at self' i = witness_at self i"
      "self' = self\<lparr>transaction := (transaction self)\<lparr>tx_input := (tx_input (transaction self))
         [sign_index c := (tx_input (transaction self) ! sign_index c)
            \<lparr>witness := witness_at self (sign_index c) @ [v]\<rparr>]\<rparr>\<rparr>"
proof (cases c)
  case (SignCoinbase sk tw rng)
  obtain r2 tx where sig: "add_signature C (transaction self) 0 (prevouts self) sk tw rng = (r2, tx)"
    by (cases "add_signature C (transaction self) 0 (prevouts self) sk tw rng")
  with assms(1) SignCoinbase have eq: "r2 = r" "self' = self\<lparr>transaction := tx\<rparr>"
    by (auto simp: add_coinbase_sig_def)
  from sig show ?thesis
  proof (cases rule: add_signature_cases)
    case out_of_range
    with wf_has_input [OF assms(2)] show ?thesis by simp
  qed (use that eq SignCoinbase in \<open>auto simp: witness_at_def\<close>)
next
  case (SignPrevUpdate sk tw rng)
  show ?thesis
  proof (cases "prev_update_txout self")
    case None
    with assms SignPrevUpdate that(1) show ?thesis by (auto simp: add_prev_update_sig_None)
  next
    case (Some txout)
    obtain r2 tx where sig: "add_signature C (transaction self) 1 (prevouts self) sk tw rng = (r2, tx)"
      by (cases "add_signature C (transaction self) 1 (prevouts self) sk tw rng")
    with assms(1) SignPrevUpdate Some have eq: "r2 = r" "self' = self\<lparr>transaction := tx\<rparr>"
      by (auto simp: add_prev_update_sig_Some)
    from sig show ?thesis
    proof (cases rule: add_signature_cases)
      case out_of_range
      with wf_has_prev [OF assms(2) Some] show ?thesis by simp
    qed (use that eq SignPrevUpdate in \<open>auto simp: witness_at_def\<close>)
  qed
qed

section \<open>Sequences of signing calls\<close>

lemma apply_signs_Cons:
  "apply_signs C (c # cs) self =
     (fst (apply_sign C c self) # fst (apply_signs C cs (snd (apply_sign C c self))),
      snd (apply_signs C cs (snd (apply_sign C c self))))"
  by (simp split: prod.split)

declare apply_signs.simps(2) [simp del] apply_signs_Cons [simp]

lemma length_apply_signs [simp]: "length (fst (apply_signs C cs self)) = length cs"
  by (induction cs arbitrary: self) simp_all

lemma apply_signs_frame: "frame (snd (apply_signs C cs self)) = frame self"
  by (induction cs arbitrary: self) (simp_all add: apply_sign_frame)

lemma apply_sign_wf: "payout_wf self \<Longrightarrow> payout_wf (snd (apply_sign C c self))"
  using frame_wf [OF apply_sign_frame] by blast

lemma apply_sign_keeps_items:
  assumes "payout_wf self"
  shows "set (witness_at self i) \<subseteq> set (witness_at (snd (apply_sign C c self)) i)"
proof (cases "apply_sign C c self")
  case (Pair r self')
  from this assms show ?thesis
    by (cases rule: apply_sign_cases) (cases "i = sign_index c"; auto simp: Pair)+
qed

lemma apply_signs_keep_items:
  "payout_wf self \<Longrightarrow> set (witness_at self i) \<subseteq> set (witness_at (snd (apply_signs C cs self)) i)"
proof (induction cs arbitrary: self)
  case (Cons c cs)
  have "set (witness_at self i) \<subseteq> set (witness_at (snd (apply_sign C c self)) i)"
    using Cons.prems by (rule apply_sign_keeps_items)
  also have "\<dots> \<subseteq> set (witness_at (snd (apply_signs C cs (snd (apply_sign C c self)))) i)"
    using Cons.prems by (intro Cons.IH apply_sign_wf)
  finally show ?case by simp
qed simp

lemma apply_sign_never_panics:
  assumes "payout_wf self"
  shows "\<not> panics (fst (apply_sign C c self))"
proof (cases "apply_sign C c self")
  case (Pair r self')
  from this assms show ?thesis by (cases rule: apply_sign_cases) (auto simp: Pair)
qed

text \<open>A successful call: what it appended, over the payout update it ended with.\<close>

lemma apply_sign_item:
  assumes "payout_wf self" and "sighash_laws (key_spend_sighash C)"
    and "fst (apply_sign C c self) = Ok ()" and "frame self' = frame self"
  shows "\<exists>v. sign_item C c (transaction self') (prevouts self') = Ok v \<and>
             v \<in> set (witness_at (snd (apply_sign C c self)) (sign_index c))"
proof (cases "apply_sign C c self")
  case (Pair r self2)
  from this assms(1) show ?thesis
  proof (cases rule: apply_sign_cases)
    case failed
    with assms(3) Pair show ?thesis by simp
  next
    case (signed v)
    with frame_sign_item [OF assms(2,4), of c] Pair show ?thesis by auto
  qed
qed

lemma apply_signs_items:
  assumes "sighash_laws (key_spend_sighash C)"
  shows "payout_wf self \<Longrightarrow> j < length cs \<Longrightarrow> fst (apply_signs C cs self) ! j = Ok () \<Longrightarrow>
    frame self' = frame self \<Longrightarrow>
    \<exists>v. sign_item C (cs ! j) (transaction self') (prevouts self') = Ok v \<and>
        v \<in> set (witness_at (snd (apply_signs C cs self)) (sign_index (cs ! j)))"
proof (induction cs arbitrary: self j)
  case (Cons c cs)
  let ?next = "snd (apply_sign C c self)"
  show ?case
  proof (cases j)
    case 0
    with Cons.prems have "fst (apply_sign C c self) = Ok ()" by simp
    with apply_sign_item [OF Cons.prems(1) assms _ Cons.prems(4)] obtain v where
      "sign_item C c (transaction self') (prevouts self') = Ok v"
      "v \<in> set (witness_at ?next (sign_index c))" by blast
    moreover have "set (witness_at ?next (sign_index c)) \<subseteq>
        set (witness_at (snd (apply_signs C cs ?next)) (sign_index c))"
      using Cons.prems(1) by (intro apply_signs_keep_items apply_sign_wf)
    ultimately show ?thesis using 0 by auto
  next
    case (Suc k)
    have "payout_wf ?next" using Cons.prems(1) by (rule apply_sign_wf)
    moreover have "frame self' = frame ?next" using Cons.prems(4) by (simp add: apply_sign_frame)
    ultimately show ?thesis using Cons.IH [of ?next k] Cons.prems(2,3) Suc by simp
  qed
qed simp

text \<open>Conversely, every item comes from a successful call on its input.\<close>

lemma apply_signs_items_from_calls:
  assumes laws: "sighash_laws (key_spend_sighash C)"
  shows "payout_wf self \<Longrightarrow> v \<in> set (witness_at (snd (apply_signs C cs self)) i) \<Longrightarrow>
    v \<in> set (witness_at self i) \<or>
    (\<exists>j < length cs. fst (apply_signs C cs self) ! j = Ok () \<and> sign_index (cs ! j) = i \<and>
       sign_item C (cs ! j) (transaction self) (prevouts self) = Ok v)"
proof (induction cs arbitrary: self)
  case (Cons c cs)
  let ?next = "snd (apply_sign C c self)"
  have wf: "payout_wf ?next" using Cons.prems(1) by (rule apply_sign_wf)
  have item: "sign_item C d (transaction ?next) (prevouts ?next) =
      sign_item C d (transaction self) (prevouts self)" for d
    using frame_sign_item [OF laws apply_sign_frame] .
  from Cons.IH [OF wf] Cons.prems(2) consider
      "v \<in> set (witness_at ?next i)"
    | j where "j < length cs" "fst (apply_signs C cs ?next) ! j = Ok ()" "sign_index (cs ! j) = i"
        "sign_item C (cs ! j) (transaction self) (prevouts self) = Ok v"
    by (auto simp: item)
  then show ?case
  proof cases
    case 1
    obtain r self' where call: "apply_sign C c self = (r, self')" by (cases "apply_sign C c self")
    from call Cons.prems(1) show ?thesis
    proof (cases rule: apply_sign_cases)
      case failed
      with 1 call show ?thesis by simp
    next
      case (signed w)
      have "v \<in> set (witness_at self i) \<or> v = w \<and> i = sign_index c"
        using 1 call signed(4) signed(5) [of i] by (cases "i = sign_index c") auto
      then show ?thesis using signed(1,2) call by (auto intro: exI [of _ 0])
    qed
  next
    case 2
    then show ?thesis by (intro disjI2 exI [of _ "Suc j"]) simp
  qed
qed simp

text \<open>How many of the calls signed input \<open>i\<close>.\<close>

fun successes :: "nat \<Rightarrow> (('sk, 'tw, 'rng) sign_call \<times> (unit, 'e) outcome) list \<Rightarrow> nat" where
  "successes i [] = 0"
| "successes i ((c, r) # rest) =
     (if r = Ok () \<and> sign_index c = i then 1 else 0) + successes i rest"

lemma apply_signs_count:
  "payout_wf self \<Longrightarrow>
   length (witness_at (snd (apply_signs C cs self)) i) =
   length (witness_at self i) + successes i (zip cs (fst (apply_signs C cs self)))"
proof (induction cs arbitrary: self)
  case (Cons c cs)
  obtain r self' where step: "apply_sign C c self = (r, self')" by (cases "apply_sign C c self")
  have IH: "length (witness_at (snd (apply_signs C cs self')) i) =
      length (witness_at self' i) + successes i (zip cs (fst (apply_signs C cs self')))"
    using apply_sign_wf [OF Cons.prems, of C c] step by (intro Cons.IH) simp
  from step Cons.prems have "length (witness_at self' i) =
      length (witness_at self i) + (if r = Ok () \<and> sign_index c = i then 1 else 0)"
    by (cases rule: apply_sign_cases) auto
  with IH step show ?case by simp
qed simp

section \<open>Calls on different inputs commute\<close>

definition blocked :: "('sk, 'tw, 'rng) sign_call \<Rightarrow> 'txid PayoutUpdate \<Rightarrow> bool" where
  "blocked c self \<longleftrightarrow> sign_index c = 1 \<and> prev_update_txout self = None"

definition append_item :: "nat \<Rightarrow> bytes \<Rightarrow> 'txid PayoutUpdate \<Rightarrow> 'txid PayoutUpdate" where
  "append_item i v self =
     self\<lparr>transaction := (transaction self)\<lparr>tx_input := (tx_input (transaction self))
       [i := (tx_input (transaction self) ! i)\<lparr>witness := witness_at self i @ [v]\<rparr>]\<rparr>\<rparr>"

lemma apply_sign_eq:
  assumes "payout_wf self"
  shows "apply_sign C c self =
    (if blocked c self then (Err NoPrevUpdateTxOut, self)
     else (case sign_item C c (transaction self) (prevouts self) of
             Ok v \<Rightarrow> (Ok (), append_item (sign_index c) v self)
           | Err e \<Rightarrow> (Err e, self)
           | Panic p \<Rightarrow> (Panic p, self)))"
proof (cases c)
  case (SignCoinbase sk tw rng)
  then show ?thesis using wf_has_input [OF assms]
    by (auto simp: blocked_def add_coinbase_sig_def add_signature_def push_witness_def append_item_def
        witness_at_def split: outcome.split)
next
  case (SignPrevUpdate sk tw rng)
  then show ?thesis using wf_has_prev [OF assms]
    by (cases "prev_update_txout self")
      (auto simp: blocked_def add_prev_update_sig_None add_prev_update_sig_Some add_signature_def
        push_witness_def append_item_def witness_at_def split: outcome.split)
qed

lemma append_item_commute:
  "i \<noteq> j \<Longrightarrow> append_item i v (append_item j w self) = append_item j w (append_item i v self)"
  by (simp add: append_item_def witness_at_def list_update_swap)

lemma frame_blocked: "frame self = frame self' \<Longrightarrow> blocked c self = blocked c self'"
  by (simp add: blocked_def frame_def)

lemma apply_sign_commute:
  assumes wf: "payout_wf self" and laws: "sighash_laws (key_spend_sighash C)"
    and idx: "sign_index c \<noteq> sign_index d"
  shows "fst (apply_sign C d (snd (apply_sign C c self))) = fst (apply_sign C d self) \<and>
    snd (apply_sign C d (snd (apply_sign C c self))) = snd (apply_sign C c (snd (apply_sign C d self)))"
proof -
  let ?c = "snd (apply_sign C c self)" and ?d = "snd (apply_sign C d self)"
  have fc: "frame ?c = frame self" and fd: "frame ?d = frame self"
    by (rule apply_sign_frame)+
  have item: "sign_item C x (transaction s) (prevouts s) = sign_item C x (transaction self) (prevouts self)"
    if "frame s = frame self" for x s
    using frame_sign_item [OF laws that] .
  have step: "apply_sign C x s =
    (if blocked x self then (Err NoPrevUpdateTxOut, s)
     else (case sign_item C x (transaction self) (prevouts self) of
             Ok v \<Rightarrow> (Ok (), append_item (sign_index x) v s)
           | Err e \<Rightarrow> (Err e, s) | Panic p \<Rightarrow> (Panic p, s)))"
    if f: "frame s = frame self" for x s
    unfolding apply_sign_eq [OF frame_wf [OF f, THEN iffD2, OF wf]] item [OF f] frame_blocked [OF f] ..
  show ?thesis
    unfolding step [OF fc] step [OF fd]
    by (auto simp: step [OF refl] append_item_commute [OF idx] split: outcome.split)
qed

text \<open>The key and tweak of a call.\<close>

fun sign_key :: "('sk, 'tw, 'rng) sign_call \<Rightarrow> 'sk \<times> 'tw option" where
  "sign_key (SignCoinbase sk tw rng) = (sk, tw)"
| "sign_key (SignPrevUpdate sk tw rng) = (sk, tw)"

text \<open>The keypair of the call exists: its tweak, if any, does not make the key invalid.\<close>

definition usable_key ::
    "('txid, 'sk, 'k, 'kp, 'pk, 'tw, 'rng, 'sig, 'te, 'se) crypto \<Rightarrow> ('sk, 'tw, 'rng) sign_call \<Rightarrow> bool" where
  "usable_key C c \<longleftrightarrow> is_ok (signing_keypair C (fst (sign_key c)) (snd (sign_key c)))"

lemma sign_item_works:
  assumes works: "crypto_works C" and wf: "payout_wf self" and free: "\<not> blocked c self" and key: "usable_key C c"
  shows "\<exists>v. sign_item C c (transaction self) (prevouts self) = Ok v"
proof -
  obtain kp where "signing_keypair C (fst (sign_key c)) (snd (sign_key c)) = Ok kp"
    using key unfolding usable_key_def by (auto elim: is_ok.elims)
  moreover have "sign_index c < length (tx_input (transaction self))"
    using wf free wf_has_prev [OF wf] wf_has_input [OF wf]
    by (cases c) (auto simp: blocked_def)
  ultimately show ?thesis
    using works_item [OF works, of "sign_index c" "transaction self" "prevouts self"
        "fst (sign_key c)" "snd (sign_key c)" kp] wf
    by (cases c) (auto simp: payout_wf_def)
qed

lemma apply_signs_works:
  assumes works: "crypto_works C"
  shows "payout_wf self \<Longrightarrow> \<forall>c \<in> set cs. usable_key C c \<Longrightarrow>
    fst (apply_signs C cs self) = map (\<lambda>c. if blocked c self then Err NoPrevUpdateTxOut else Ok ()) cs"
proof (induction cs arbitrary: self)
  case (Cons c cs)
  have "fst (apply_sign C c self) = (if blocked c self then Err NoPrevUpdateTxOut else Ok ())"
    using sign_item_works [OF works Cons.prems(1), of c] Cons.prems(2) by (auto simp: apply_sign_eq [OF Cons.prems(1)])
  moreover have "blocked d (snd (apply_sign C c self)) = blocked d self" if "d \<in> set cs" for d
    by (rule frame_blocked [OF apply_sign_frame])
  ultimately show ?case
    using Cons.IH [OF apply_sign_wf [OF Cons.prems(1), of C c]] Cons.prems(2) by simp
qed simp

section \<open>A concrete payout update\<close>

text \<open>
  The transactions of the unit tests (one output of 50000000 satoshis, no inputs), a fee of
  1000, and the libraries instantiated: transaction ids count outputs, an address is a byte.
\<close>

definition sample_bitcoin :: "(nat, u8) bitcoin" where
  "sample_bitcoin =
     \<lparr>compute_txid = (\<lambda>tx. length (tx_output tx)), address_script = (\<lambda>a. [a]),
      amount_add = checked_add, amount_sub = checked_sub\<rparr>"

definition create_dummy_transaction :: "'txid Transaction" where
  "create_dummy_transaction =
     \<lparr>tx_version = 2, lock_time = 0, tx_input = [],
      tx_output = [\<lparr>txout_value = 50000000, script_pubkey = []\<rparr>]\<rparr>"

definition sample_payout :: "nat PayoutUpdate" where
  "sample_payout =
     \<lparr>transaction =
        \<lparr>tx_version = 2, lock_time = 0, tx_input = [spends 1, spends 1],
         tx_output = [\<lparr>txout_value = 99999000, script_pubkey = [7]\<rparr>]\<rparr>,
      coinbase_txout = \<lparr>txout_value = 50000000, script_pubkey = []\<rparr>,
      prev_update_txout = Some \<lparr>txout_value = 50000000, script_pubkey = []\<rparr>\<rparr>"

definition sample_first_payout :: "nat PayoutUpdate" where
  "sample_first_payout =
     \<lparr>transaction =
        \<lparr>tx_version = 2, lock_time = 0, tx_input = [spends 1],
         tx_output = [\<lparr>txout_value = 49999000, script_pubkey = [7]\<rparr>]\<rparr>,
      coinbase_txout = \<lparr>txout_value = 50000000, script_pubkey = []\<rparr>,
      prev_update_txout = None\<rparr>"

lemma sample_amounts: "amount_ops (amount_add sample_bitcoin) (amount_sub sample_bitcoin)"
  by (simp add: sample_bitcoin_def sats.amount_ops_axioms)

lemmas sample_defs = sample_bitcoin_def create_dummy_transaction_def sample_payout_def
  sample_first_payout_def spends_def

lemma sample_new:
  "payout_new sample_bitcoin (Some create_dummy_transaction) create_dummy_transaction 7 1000 =
   Ok sample_payout"
  by (simp add: sample_defs payout_new_def builder_defs index_def checked_add_def checked_sub_def)

lemma sample_first_new:
  "payout_new sample_bitcoin None create_dummy_transaction 7 1000 = Ok sample_first_payout"
  by (simp add: sample_defs payout_new_def builder_defs index_def checked_add_def checked_sub_def)

abbreviation sample_calls :: "(nat, nat, nat) sign_call list" where
  "sample_calls \<equiv> [SignCoinbase 3 None 0, SignPrevUpdate 4 (Some 5) 0]"

lemma sample_signed:
  "fst (apply_signs sample_crypto sample_calls sample_payout) = [Ok (), Ok ()]"
  "map witness (tx_input (payout_build (snd (apply_signs sample_crypto sample_calls sample_payout)))) =
     [[replicate 64 3 @ [1]], [replicate 64 9 @ [1]]]"
  by (simp_all add: sample_defs sample_crypto_def add_coinbase_sig_def add_prev_update_sig_def prevouts_def
      add_signature_def signature_bytes_def signing_keypair_def push_witness_def payout_build_def)

lemma sign_item_Ok:
  assumes "sign_item C c tx ps = Ok v"
  shows "\<exists>kp msg s. signing_keypair C (fst (sign_key c)) (snd (sign_key c)) = Ok kp \<and>
    key_spend_sighash C tx (sign_index c) ps = Inr msg \<and>
    verify_schnorr C s msg (x_only_public_key C kp) = Inr () \<and> v = serialize_sig C s @ [1]"
  using assms by (cases c) (auto simp: signature_bytes_Ok)

section \<open>Properties\<close>

text \<open>
  C12. Creating a payout update succeeds exactly when the transactions have an output to spend,
  their total fits in 64 bits and covers the fee; in every other case the call panics. It never
  returns an error value.
\<close>

theorem payout_new_ok_iff:
  assumes "amount_ops (amount_add B) (amount_sub B)"
  shows "is_ok (payout_new B prev coinbase addr fee) =
      (tx_output coinbase \<noteq> [] \<and> tx_output (case prev of None \<Rightarrow> coinbase | Some tx \<Rightarrow> tx) \<noteq> [] \<and>
       inputs_value prev coinbase < 2 ^ 64 \<and> unat fee \<le> inputs_value prev coinbase) \<and>
    \<not> is_err (payout_new B prev coinbase addr fee)"
proof (cases "payout_new B prev coinbase addr fee")
  case (Ok pu)
  from payout_new_Ok [OF assms Ok] payout_new_total_fits [OF assms Ok] Ok show ?thesis
    by (auto split: option.split)
next
  case (Err e)
  then show ?thesis using payout_new_no_Err by metis
next
  case (Panic p)
  then show ?thesis using payout_new_succeeds [OF assms, of coinbase prev fee addr]
    by (auto split: option.splits)
qed

lemma payout_new_ok_iff_witness:
  "is_ok (payout_new sample_bitcoin None create_dummy_transaction 7 50000000) \<and>
   \<not> is_ok (payout_new sample_bitcoin None create_dummy_transaction 7 50000001)"
  using payout_new_ok_iff [OF sample_amounts, of None create_dummy_transaction 7]
  by (simp add: create_dummy_transaction_def inputs_value_def)

text \<open>
  C4. A payout update neither creates nor destroys value: the single output plus the fee is
  the coinbase output plus the previous update's output, as exact numbers. It spends output 0
  of the coinbase first and output 0 of the previous update, if there is one, second, pays to
  the given address, and starts unsigned.
\<close>

theorem payout_new_conserves_value:
  assumes "amount_ops (amount_add B) (amount_sub B)"
    and "payout_new B prev coinbase addr fee = Ok pu"
  shows "(\<exists>out. tx_output (payout_build pu) = [out] \<and> script_pubkey out = address_script B addr \<and>
       unat (txout_value out) + unat fee = inputs_value prev coinbase) \<and>
    map previous_output (tx_input (payout_build pu)) =
       \<lparr>txid = compute_txid B coinbase, vout = 0\<rparr> #
       (case prev of None \<Rightarrow> [] | Some tx \<Rightarrow> [\<lparr>txid = compute_txid B tx, vout = 0\<rparr>]) \<and>
    prevouts pu = tx_output coinbase ! 0 # (case prev of None \<Rightarrow> [] | Some tx \<Rightarrow> [tx_output tx ! 0]) \<and>
    unsigned_tx (payout_build pu) = payout_build pu"
  using payout_new_Ok [OF assms]
  by (cases prev) (auto simp: payout_build_def spends_def prevouts_def unsigned_tx_def)

lemma payout_new_conserves_value_witness:
  "\<exists>out. tx_output (payout_build sample_payout) = [out] \<and>
     unat (txout_value out) + 1000 = 100000000"
  using payout_new_conserves_value [OF sample_amounts sample_new]
  by (auto simp: create_dummy_transaction_def inputs_value_def)

text \<open>
  C37. Once a payout update has been created, no sequence of signing calls panics: the input
  each call signs exists, or the call reports that there is no previous update.
\<close>

theorem signing_never_panics:
  assumes "amount_ops (amount_add B) (amount_sub B)"
    and "payout_new B prev coinbase addr fee = Ok pu"
  shows "filter panics (fst (apply_signs C cs pu)) = []"
proof -
  have "payout_wf self \<Longrightarrow> filter panics (fst (apply_signs C cs self)) = []" for self
    by (induction cs arbitrary: self) (simp_all add: apply_sign_never_panics apply_sign_wf)
  then show ?thesis using payout_new_wf [OF assms] by blast
qed

lemma signing_never_panics_witness:
  "filter panics (fst (apply_signs sample_crypto
     [SignPrevUpdate 3 None 0, SignCoinbase 1 (Some 2) 0] sample_first_payout)) = []"
  by (rule signing_never_panics [OF sample_amounts sample_first_new])

text \<open>
  C3. Every signature added, by any sequence of calls in any order, is valid for the
  transaction that is finally built: it verifies, under the key and tweak of its call, for the
  sighash of the final transaction, and it is in the witness of the input its call names.
\<close>

theorem signatures_valid_for_final_transaction:
  assumes "amount_ops (amount_add B) (amount_sub B)"
    and "payout_new B prev coinbase addr fee = Ok pu"
    and "sighash_laws (key_spend_sighash C)"
    and "apply_signs C cs pu = (rs, pu')" and "j < length cs" and "rs ! j = Ok ()"
  shows "\<exists>kp msg s.
    signing_keypair C (fst (sign_key (cs ! j))) (snd (sign_key (cs ! j))) = Ok kp \<and>
    key_spend_sighash C (payout_build pu') (sign_index (cs ! j)) (prevouts pu') = Inr msg \<and>
    verify_schnorr C s msg (x_only_public_key C kp) = Inr () \<and>
    serialize_sig C s @ [1] \<in> set (witness (tx_input (payout_build pu') ! sign_index (cs ! j)))"
proof -
  have "frame pu' = frame pu" using apply_signs_frame [of C cs pu] assms(4) by simp
  with apply_signs_items [OF assms(3) payout_new_wf [OF assms(1,2)] assms(5), of pu'] assms(4,6)
  obtain v where "sign_item C (cs ! j) (transaction pu') (prevouts pu') = Ok v"
    and "v \<in> set (witness_at pu' (sign_index (cs ! j)))" by auto
  with sign_item_Ok [of C "cs ! j"] show ?thesis
    by (fastforce simp: payout_build_def witness_at_def)
qed

lemma signatures_valid_for_final_transaction_witness:
  "\<exists>kp msg s.
    key_spend_sighash sample_crypto
      (payout_build (snd (apply_signs sample_crypto sample_calls sample_payout))) 1
      (prevouts (snd (apply_signs sample_crypto sample_calls sample_payout))) = Inr msg \<and>
    verify_schnorr sample_crypto s msg (x_only_public_key sample_crypto kp) = Inr ()"
proof -
  have "sample_calls ! 1 = SignPrevUpdate 4 (Some 5) 0" and
    "fst (apply_signs sample_crypto sample_calls sample_payout) ! 1 = Ok ()"
    by (simp_all only: sample_signed(1)) simp_all
  then show ?thesis
    using signatures_valid_for_final_transaction [OF sample_amounts sample_new sample_sighash_laws
        prod.collapse [symmetric], of 1 sample_calls] by auto
qed

text \<open>
  The witness of each input holds one item per successful call on that input: nothing is
  replaced or merged, so signing an input twice leaves two items.
\<close>

theorem witness_counts_successful_calls:
  assumes "amount_ops (amount_add B) (amount_sub B)"
    and "payout_new B prev coinbase addr fee = Ok pu"
    and "i < length (prevouts pu)"
  shows "length (witness_at (snd (apply_signs C cs pu)) i) =
    successes i (zip cs (fst (apply_signs C cs pu)))"
proof -
  have "witness_at pu i = []"
    using payout_new_Ok [OF assms(1,2)] assms(3)
    by (cases prev) (auto simp: witness_at_def spends_def prevouts_def less_Suc_eq)
  then show ?thesis using apply_signs_count [OF payout_new_wf [OF assms(1,2)], of C cs i] by simp
qed

lemma witness_counts_successful_calls_witness:
  "length (witness_at (snd (apply_signs sample_crypto sample_calls sample_payout)) 1) = 1"
  using witness_counts_successful_calls [OF sample_amounts sample_new, of 1 sample_crypto sample_calls]
  unfolding sample_signed(1) by (simp add: sample_payout_def prevouts_def)

text \<open>
  C40. The two inputs can be signed in either order: the calls return the same results and end
  with the same payout update.
\<close>

theorem signing_order_irrelevant:
  assumes "amount_ops (amount_add B) (amount_sub B)"
    and "payout_new B prev coinbase addr fee = Ok pu"
    and "sighash_laws (key_spend_sighash C)"
  shows "map_prod rev id (apply_signs C [SignPrevUpdate sk tw rng, SignCoinbase sk' tw' rng'] pu) =
    apply_signs C [SignCoinbase sk' tw' rng', SignPrevUpdate sk tw rng] pu"
  using apply_sign_commute [OF payout_new_wf [OF assms(1,2)] assms(3),
      of "SignCoinbase sk' tw' rng'" "SignPrevUpdate sk tw rng"]
    apply_sign_commute [OF payout_new_wf [OF assms(1,2)] assms(3),
      of "SignPrevUpdate sk tw rng" "SignCoinbase sk' tw' rng'"]
  by simp

lemma signing_order_irrelevant_witness:
  "map_prod rev id (apply_signs sample_crypto [SignPrevUpdate 4 (Some 5) 0, SignCoinbase 3 None 0] sample_payout) =
   apply_signs sample_crypto sample_calls sample_payout"
  by (rule signing_order_irrelevant [OF sample_amounts sample_new sample_sighash_laws])

text \<open>
  Signing is always possible: with libraries that work, every signing call of any sequence whose
  keys can be tweaked as asked succeeds, in whatever order and however often, but for calls on the previous update's input
  when there is none; those report \<open>NoPrevUpdateTxOut\<close>.
\<close>

theorem signing_always_possible:
  assumes "amount_ops (amount_add B) (amount_sub B)"
    and "payout_new B prev coinbase addr fee = Ok pu" and "crypto_works C"
    and "\<forall>c \<in> set cs. usable_key C c"
  shows "fst (apply_signs C cs pu) =
    map (\<lambda>c. if sign_index c = 1 \<and> prev = None then Err NoPrevUpdateTxOut else Ok ()) cs"
  using apply_signs_works [OF assms(3) payout_new_wf [OF assms(1,2)] assms(4)] payout_new_Ok [OF assms(1,2)]
  by (auto simp: blocked_def)

lemma signing_always_possible_witness:
  "fst (apply_signs sample_crypto [SignPrevUpdate 3 None 0, SignCoinbase 1 (Some 2) 0] sample_first_payout) =
     [Err NoPrevUpdateTxOut, Ok ()]"
proof -
  have "\<forall>c \<in> set [SignPrevUpdate 3 None 0, SignCoinbase 1 (Some 2) 0]. usable_key sample_crypto c"
    by (simp add: usable_key_def signing_keypair_def sample_crypto_def)
  from signing_always_possible [OF sample_amounts sample_first_new sample_works this]
  show ?thesis by simp
qed

text \<open>
  Without a previous update, signing its input is the error \<open>NoPrevUpdateTxOut\<close> and changes
  nothing, whatever the key, tweak and libraries do.
\<close>

theorem no_prev_update_signature:
  assumes "amount_ops (amount_add B) (amount_sub B)"
    and "payout_new B None coinbase addr fee = Ok pu"
  shows "add_prev_update_sig C pu sk tw rng = (Err NoPrevUpdateTxOut, pu)"
  using payout_new_Ok [OF assms] by (auto intro: add_prev_update_sig_None)

lemma no_prev_update_signature_witness:
  "add_prev_update_sig sample_crypto sample_first_payout 3 None 0 =
   (Err NoPrevUpdateTxOut, sample_first_payout)"
  by (rule no_prev_update_signature [OF sample_amounts sample_first_new])

end
