(* ===== verification/Chain.thy ===== *)
theory Chain
  imports Payout
begin

text \<open>
  A chain of payout updates, the use PayoutUpdate is made for: each update spends a new coinbase
  and the update before it (the doc comment of \<open>new\<close>: the previous update is None exactly for
  the first). The chain itself is not code of the repository; it composes the modelled \<open>new\<close>,
  signing calls and \<open>build\<close>, and its specification is arithmetic on a running balance.
\<close>

section \<open>Chains\<close>

record ('txid, 'addr, 'sk, 'tw, 'rng) update_step =
  coinbase_tx :: "'txid Transaction"
  next_out_address :: 'addr
  projected_fee :: Amount
  sign_calls :: "('sk, 'tw, 'rng) sign_call list"

text \<open>The transactions of a chain, in order, starting from the previous update.\<close>

fun payout_chain ::
    "('txid, 'addr) bitcoin \<Rightarrow> ('txid, 'sk, 'k, 'kp, 'pk, 'tw, 'rng, 'sig, 'te, 'se) crypto
     \<Rightarrow> 'txid Transaction option \<Rightarrow> ('txid, 'addr, 'sk, 'tw, 'rng) update_step list
     \<Rightarrow> ('txid Transaction list, unit) outcome" where
  "payout_chain B C prev [] = Ok []"
| "payout_chain B C prev (st # sts) =
     and_then (payout_new B prev (coinbase_tx st) (next_out_address st) (projected_fee st)) (\<lambda>pu.
     let tx = payout_build (snd (apply_signs C (sign_calls st) pu)) in
     and_then (payout_chain B C (Some tx) sts) (\<lambda>txs. Ok (tx # txs)))"

text \<open>The transactions a transaction spends from, in the order of its inputs.\<close>

definition spent_ids :: "'txid Transaction \<Rightarrow> 'txid list" where
  "spent_ids tx = map (\<lambda>i. txid (previous_output i)) (tx_input tx)"

text \<open>The specification: the balance after each step, None when a step is impossible.\<close>

definition coinbase_value :: "('txid, 'addr, 'sk, 'tw, 'rng) update_step \<Rightarrow> nat" where
  "coinbase_value st = unat (txout_value (tx_output (coinbase_tx st) ! 0))"

fun balance :: "nat \<Rightarrow> ('txid, 'addr, 'sk, 'tw, 'rng) update_step list \<Rightarrow> nat option" where
  "balance v [] = Some v"
| "balance v (st # sts) =
     (if tx_output (coinbase_tx st) = [] \<or> 2 ^ 64 \<le> v + coinbase_value st \<or>
         v + coinbase_value st < unat (projected_fee st)
      then None
      else balance (v + coinbase_value st - unat (projected_fee st)) sts)"

lemma balance_sum:
  "balance v sts = Some w \<Longrightarrow>
   w + (\<Sum>st\<leftarrow>sts. unat (projected_fee st)) = v + (\<Sum>st\<leftarrow>sts. coinbase_value st)"
  by (induction sts arbitrary: v) (fastforce split: if_splits)+

text \<open>The value the next step can spend.\<close>

definition carried :: "'txid Transaction option \<Rightarrow> nat" where
  "carried prev = (case prev of None \<Rightarrow> 0 | Some tx \<Rightarrow> unat (txout_value (tx_output tx ! 0)))"

lemma carried_None [simp]: "carried None = 0"
  by (simp add: carried_def)

fun last_tx :: "'txid Transaction option \<Rightarrow> 'txid Transaction list \<Rightarrow> 'txid Transaction option" where
  "last_tx prev [] = prev"
| "last_tx prev (tx # txs) = last_tx (Some tx) txs"

lemma inputs_value_carried: "inputs_value prev cb = unat (txout_value (tx_output cb ! 0)) + carried prev"
  by (simp add: inputs_value_def carried_def split: option.split)

section \<open>One step\<close>

lemma unsigned_tx_outputs: "unsigned_tx tx = unsigned_tx tx' \<Longrightarrow> tx_output tx = tx_output tx'"
  by (drule arg_cong [where f = tx_output]) (simp add: unsigned_tx_def)

lemma unsigned_tx_spends:
  "unsigned_tx tx = unsigned_tx tx' \<Longrightarrow>
   map previous_output (tx_input tx) = map previous_output (tx_input tx')"
  by (drule arg_cong [where f = "\<lambda>t. map previous_output (tx_input t)"]) (simp add: unsigned_tx_def comp_def)

lemma signed_build:
  assumes "tx = payout_build (snd (apply_signs C cs pu))"
  shows "tx_output tx = tx_output (transaction pu)"
    "map previous_output (tx_input tx) = map previous_output (tx_input (transaction pu))"
proof -
  have "unsigned_tx tx = unsigned_tx (transaction pu)"
    using apply_signs_frame [of C cs pu] by (simp add: frame_def assms payout_build_def)
  then show "tx_output tx = tx_output (transaction pu)"
    "map previous_output (tx_input tx) = map previous_output (tx_input (transaction pu))"
    by (rule unsigned_tx_outputs, rule unsigned_tx_spends)
qed

lemma new_step_cases [consumes 2, case_names new impossible]:
  assumes "amount_ops (amount_add B) (amount_sub B)"
    and "\<forall>tx. prev = Some tx \<longrightarrow> tx_output tx \<noteq> []"
  obtains pu out where "payout_new B prev cb a fee = Ok pu" "tx_output cb \<noteq> []"
      "unat (txout_value (tx_output cb ! 0)) + carried prev < 2 ^ 64"
      "unat (txout_value out) + unat fee = unat (txout_value (tx_output cb ! 0)) + carried prev"
      "tx_output (transaction pu) = [out]"
      "map previous_output (tx_input (transaction pu)) =
         \<lparr>txid = compute_txid B cb, vout = 0\<rparr> #
         (case prev of None \<Rightarrow> [] | Some tx \<Rightarrow> [\<lparr>txid = compute_txid B tx, vout = 0\<rparr>])"
    | p where "payout_new B prev cb a fee = Panic p"
      "tx_output cb = [] \<or> 2 ^ 64 \<le> unat (txout_value (tx_output cb ! 0)) + carried prev \<or>
       unat (txout_value (tx_output cb ! 0)) + carried prev < unat fee"
proof (cases "payout_new B prev cb a fee")
  case (Ok pu)
  from payout_new_Ok [OF assms(1) Ok] obtain amount where
    new: "tx_output cb \<noteq> []" "unat amount + unat fee = inputs_value prev cb"
      "tx_output (transaction pu) = [\<lparr>txout_value = amount, script_pubkey = address_script B a\<rparr>]"
      "tx_input (transaction pu) = spends (compute_txid B cb) #
         (case prev of None \<Rightarrow> [] | Some tx \<Rightarrow> [spends (compute_txid B tx)])"
    by auto
  then show ?thesis
    using payout_new_total_fits [OF assms(1) Ok]
    by (intro that(1) [OF Ok, of "\<lparr>txout_value = amount, script_pubkey = address_script B a\<rparr>"])
      (auto simp: inputs_value_carried spends_def split: option.split)
next
  case (Err e)
  then show ?thesis using payout_new_no_Err by metis
next
  case (Panic p)
  with payout_new_succeeds [OF assms(1) _ assms(2), of cb fee a] show ?thesis
    by (intro that(2) [OF Panic]) (force simp: inputs_value_carried)
qed

section \<open>Chains meet the specification\<close>

lemma chain_balance:
  assumes "amount_ops (amount_add B) (amount_sub B)"
    and "\<forall>tx. prev = Some tx \<longrightarrow> tx_output tx \<noteq> []"
  shows "(case payout_chain B C prev sts of
      Ok txs \<Rightarrow> balance (carried prev) sts = Some (carried (last_tx prev txs))
    | Err e \<Rightarrow> False
    | Panic p \<Rightarrow> balance (carried prev) sts = None)"
  using assms(2)
proof (induction sts arbitrary: prev)
  case (Cons st sts)
  from assms(1) Cons.prems show ?case
  proof (cases rule: new_step_cases [where cb = "coinbase_tx st" and a = "next_out_address st"
        and fee = "projected_fee st"])
    case (new pu out)
    let ?tx = "payout_build (snd (apply_signs C (sign_calls st) pu))"
    have out: "tx_output ?tx = [out]" using signed_build(1) [OF refl] new(5) by metis
    then have carry: "carried (Some ?tx) = carried prev + coinbase_value st - unat (projected_fee st)"
      using new(4) by (simp add: carried_def coinbase_value_def)
    from Cons.IH [of "Some ?tx"] out carry new(1-4) show ?thesis
      by (simp add: Let_def coinbase_value_def split: outcome.splits)
  next
    case (impossible p)
    then show ?thesis by (auto simp: coinbase_value_def)
  qed
qed simp

lemma chain_spends:
  assumes "amount_ops (amount_add B) (amount_sub B)"
    and "\<forall>tx. prev = Some tx \<longrightarrow> tx_output tx \<noteq> []"
    and "payout_chain B C prev sts = Ok txs"
  shows "length txs = length sts \<and>
    (\<forall>i < length txs. length (tx_output (txs ! i)) = 1 \<and>
       spent_ids (txs ! i) =
         compute_txid B (coinbase_tx (sts ! i)) #
         map (compute_txid B) (if i = 0 then (case prev of None \<Rightarrow> [] | Some tx \<Rightarrow> [tx]) else [txs ! (i - 1)]))"
  using assms(2,3)
proof (induction sts arbitrary: prev txs)
  case (Cons st sts)
  from assms(1) Cons.prems(1) show ?case
  proof (cases rule: new_step_cases [where cb = "coinbase_tx st" and a = "next_out_address st"
        and fee = "projected_fee st"])
    case (new pu out)
    let ?tx = "payout_build (snd (apply_signs C (sign_calls st) pu))"
    have built: "tx_output ?tx = [out]" "map previous_output (tx_input ?tx) = map previous_output (tx_input (transaction pu))"
      using signed_build [OF refl] new(5) by metis+
    from Cons.prems(2) new(1) obtain rest where
      rest: "payout_chain B C (Some ?tx) sts = Ok rest" "txs = ?tx # rest"
      by (auto simp: Let_def outcome_simps)
    have ids: "spent_ids ?tx = compute_txid B (coinbase_tx st) #
        map (compute_txid B) (case prev of None \<Rightarrow> [] | Some tx \<Rightarrow> [tx])"
      using arg_cong [OF built(2), of "map txid"] new(6) by (simp add: spent_ids_def comp_def split: option.splits)
    note tail = Cons.IH [OF _ rest(1)]
    show ?thesis
    proof (intro conjI allI impI)
      show "length txs = length (st # sts)" using tail built(1) rest(2) by simp
    next
      fix i assume "i < length txs"
      then show "length (tx_output (txs ! i)) = 1" using tail built(1) rest(2) by (cases i) simp_all
    next
      fix i assume i: "i < length txs"
      show "spent_ids (txs ! i) = compute_txid B (coinbase_tx ((st # sts) ! i)) #
        map (compute_txid B) (if i = 0 then (case prev of None \<Rightarrow> [] | Some tx \<Rightarrow> [tx]) else [txs ! (i - 1)])"
      proof (cases i)
        case 0
        then show ?thesis using ids rest(2) by simp
      next
        case (Suc j)
        then show ?thesis using tail built(1) rest(2) i by (cases j) simp_all
      qed
    qed
  next
    case (impossible p)
    with Cons.prems(2) show ?thesis by simp
  qed
qed simp

lemma last_tx_last: "txs \<noteq> [] \<Longrightarrow> last_tx prev txs = Some (last txs)"
  by (induction txs arbitrary: prev) auto

section \<open>Properties\<close>

text \<open>
  C26. A chain of payout updates keeps exact books. It can be built exactly when the running
  balance (coinbase values added, fees subtracted, as unbounded numbers) never exceeds 64 bits
  and never goes below a fee; otherwise it panics and never returns an error; when it is built,
  the last transaction pays out that balance, which is all coinbase values less all fees. What
  signatures were added, successfully or not, makes no difference.
\<close>

theorem chain_keeps_balance:
  assumes "amount_ops (amount_add B) (amount_sub B)"
  shows "\<not> is_err (payout_chain B C None sts) \<and>
    (is_ok (payout_chain B C None sts) \<longleftrightarrow> balance 0 sts \<noteq> None) \<and>
    (\<forall>txs \<in> oks (payout_chain B C None sts). txs \<noteq> [] \<longrightarrow>
       balance 0 sts = Some (unat (txout_value (tx_output (last txs) ! 0))) \<and>
       unat (txout_value (tx_output (last txs) ! 0)) + (\<Sum>st\<leftarrow>sts. unat (projected_fee st)) =
         (\<Sum>st\<leftarrow>sts. coinbase_value st))"
proof -
  have refine: "case payout_chain B C None sts of
      Ok txs \<Rightarrow> balance 0 sts = Some (carried (last_tx None txs))
    | Err e \<Rightarrow> False | Panic p \<Rightarrow> balance 0 sts = None"
    using chain_balance [OF assms, where prev = None and C = C and sts = sts]
    by (cases "payout_chain B C None sts") simp_all
  show ?thesis
  proof (cases "payout_chain B C None sts")
    case (Ok txs)
    with refine have spec: "balance 0 sts = Some (carried (last_tx None txs))" by simp
    with balance_sum [OF spec] Ok show ?thesis
      by (auto simp: last_tx_last carried_def)
  qed (use refine in auto)
qed

text \<open>
  A chain is linked: each transaction has one output and spends first its own step's
  coinbase and second, except for the first step, the transaction of the step before it.
\<close>

theorem chain_is_linked:
  assumes "amount_ops (amount_add B) (amount_sub B)" and "payout_chain B C None sts = Ok txs"
    and "i < length sts"
  shows "length txs = length sts \<and> length (tx_output (txs ! i)) = 1 \<and>
    spent_ids (txs ! i) = compute_txid B (coinbase_tx (sts ! i)) #
      (if i = 0 then [] else [compute_txid B (txs ! (i - 1))])"
  using chain_spends [OF assms(1) _ assms(2)] assms(3) by (cases i) auto

text \<open>Three updates with the transactions of the unit tests.\<close>

definition sample_steps :: "(nat, u8, nat, nat, nat) update_step list" where
  "sample_steps = replicate 3
     \<lparr>coinbase_tx = create_dummy_transaction, next_out_address = 7, projected_fee = 1000,
      sign_calls = sample_calls\<rparr>"

lemma sample_steps_eq:
  "sample_steps = (let st = \<lparr>coinbase_tx = create_dummy_transaction, next_out_address = 7,
     projected_fee = 1000, sign_calls = sample_calls\<rparr> in [st, st, st])"
  by (simp add: sample_steps_def numeral_3_eq_3 Let_def)

lemma chain_keeps_balance_witness:
  "is_ok (payout_chain sample_bitcoin sample_crypto None sample_steps)"
  using chain_keeps_balance [OF sample_amounts, where C = sample_crypto and sts = sample_steps]
  by (simp add: sample_steps_eq Let_def coinbase_value_def create_dummy_transaction_def)

lemma chain_is_linked_witness:
  "\<exists>txs. payout_chain sample_bitcoin sample_crypto None sample_steps = Ok txs \<and>
     length txs = 3 \<and> spent_ids (txs ! 2) = [1, compute_txid sample_bitcoin (txs ! 1)]"
proof -
  obtain txs where txs: "payout_chain sample_bitcoin sample_crypto None sample_steps = Ok txs"
    using chain_balance [OF sample_amounts, where prev = None and C = sample_crypto and sts = sample_steps]
    by (cases "payout_chain sample_bitcoin sample_crypto None sample_steps")
      (auto simp: sample_steps_eq Let_def coinbase_value_def carried_def create_dummy_transaction_def)
  from chain_is_linked [OF sample_amounts txs, of 2] txs show ?thesis
    by (simp add: sample_steps_eq Let_def create_dummy_transaction_def)
      (simp add: sample_bitcoin_def)
qed

end
