(* ===== verification/Ledger.thy ===== *)
theory Ledger
  imports Chain
begin

text \<open>
  Payout updates against the ledger they spend from. The ledger and the rules by which the
  network accepts a transaction (BIP 341 key-path spends) are not code of the repository; they
  are the specification that its transactions have to meet: the inputs exist and are different,
  no value is created, and each input carries one valid signature of the key its script names.
\<close>

section \<open>The rules of the network\<close>

type_synonym 'txid ledger = "'txid OutPoint \<Rightarrow> TxOut option"

definition spent_outputs :: "'txid ledger \<Rightarrow> 'txid Transaction \<Rightarrow> TxOut list" where
  "spent_outputs L tx = List.map_filter L (map previous_output (tx_input tx))"

definition total_value :: "TxOut list \<Rightarrow> nat" where
  "total_value outs = (\<Sum>out\<leftarrow>outs. unat (txout_value out))"

text \<open>
  \<open>key_of\<close> reads the output key of a Taproot script. A key-path spend has exactly one witness
  item: the signature and the sighash byte 0x01.
\<close>

definition key_spend_ok ::
    "('txid, 'sk, 'k, 'kp, 'pk, 'tw, 'rng, 'sig, 'te, 'se) crypto \<Rightarrow> (ScriptBuf \<Rightarrow> 'pk option)
     \<Rightarrow> TxOut list \<Rightarrow> 'txid Transaction \<Rightarrow> nat \<Rightarrow> bool" where
  "key_spend_ok C key_of outs tx i \<longleftrightarrow>
     (\<exists>s pk msg. witness (tx_input tx ! i) = [serialize_sig C s @ [1]] \<and>
        key_of (script_pubkey (outs ! i)) = Some pk \<and>
        key_spend_sighash C tx i outs = Inr msg \<and> verify_schnorr C s msg pk = Inr ())"

definition accepts ::
    "('txid, 'sk, 'k, 'kp, 'pk, 'tw, 'rng, 'sig, 'te, 'se) crypto \<Rightarrow> (ScriptBuf \<Rightarrow> 'pk option)
     \<Rightarrow> 'txid ledger \<Rightarrow> 'txid Transaction \<Rightarrow> bool" where
  "accepts C key_of L tx \<longleftrightarrow>
     tx_input tx \<noteq> [] \<and> distinct (map previous_output (tx_input tx)) \<and>
     (\<forall>i \<in> set (tx_input tx). L (previous_output i) \<noteq> None) \<and>
     total_value (tx_output tx) \<le> total_value (spent_outputs L tx) \<and>
     (\<forall>i < length (tx_input tx). key_spend_ok C key_of (spent_outputs L tx) tx i)"

text \<open>What an accepted transaction does to the ledger.\<close>

definition settle :: "('txid, 'addr) bitcoin \<Rightarrow> 'txid ledger \<Rightarrow> 'txid Transaction \<Rightarrow> 'txid ledger" where
  "settle B L tx point =
     (if txid point = compute_txid B tx \<and> unat (vout point) < length (tx_output tx)
      then Some (tx_output tx ! unat (vout point))
      else if point \<in> set (map previous_output (tx_input tx)) then None
      else L point)"

section \<open>A payout update on a ledger\<close>

definition first_output :: "('txid, 'addr) bitcoin \<Rightarrow> 'txid Transaction \<Rightarrow> 'txid OutPoint" where
  "first_output B tx = \<lparr>txid = compute_txid B tx, vout = 0\<rparr>"

text \<open>The ledger holds the outputs the update is made from, under different transaction ids.\<close>

definition funds ::
    "('txid, 'addr) bitcoin \<Rightarrow> 'txid ledger \<Rightarrow> 'txid Transaction option \<Rightarrow> 'txid Transaction \<Rightarrow> bool" where
  "funds B L prev coinbase \<longleftrightarrow>
     L (first_output B coinbase) = Some (tx_output coinbase ! 0) \<and>
     (\<forall>tx. prev = Some tx \<longrightarrow>
        L (first_output B tx) = Some (tx_output tx ! 0) \<and>
        compute_txid B tx \<noteq> compute_txid B coinbase)"

text \<open>Each successful call used the key that the script of its input names.\<close>

definition right_keys ::
    "('txid, 'sk, 'k, 'kp, 'pk, 'tw, 'rng, 'sig, 'te, 'se) crypto \<Rightarrow> (ScriptBuf \<Rightarrow> 'pk option)
     \<Rightarrow> TxOut list \<Rightarrow> (('sk, 'tw, 'rng) sign_call \<times> (unit, 'e) outcome) list \<Rightarrow> bool" where
  "right_keys C key_of outs calls \<longleftrightarrow>
     (\<forall>(c, r) \<in> set calls. r = Ok () \<longrightarrow>
        (\<exists>kp. signing_keypair C (fst (sign_key c)) (snd (sign_key c)) = Ok kp \<and>
           key_of (script_pubkey (outs ! sign_index c)) = Some (x_only_public_key C kp)))"

lemma right_keysD:
  assumes "right_keys C key_of outs (zip cs rs)" and "length rs = length cs" and "j < length cs"
    and "rs ! j = Ok ()"
    and "signing_keypair C (fst (sign_key (cs ! j))) (snd (sign_key (cs ! j))) = Ok kp"
  shows "key_of (script_pubkey (outs ! sign_index (cs ! j))) = Some (x_only_public_key C kp)"
proof -
  have "(cs ! j, rs ! j) \<in> set (zip cs rs)" using assms(2,3) by (force simp: set_zip)
  with assms(1,4,5) show ?thesis unfolding right_keys_def by force
qed

text \<open>
  What a call appends to its input unlocks it: it is the serialization of a signature that
  verifies under the key the input's script names.
\<close>

definition unlocks ::
    "('txid, 'sk, 'k, 'kp, 'pk, 'tw, 'rng, 'sig, 'te, 'se) crypto \<Rightarrow> (ScriptBuf \<Rightarrow> 'pk option)
     \<Rightarrow> 'txid PayoutUpdate \<Rightarrow> ('sk, 'tw, 'rng) sign_call \<Rightarrow> bool" where
  "unlocks C key_of pu c \<longleftrightarrow>
     (\<exists>s pk msg. sign_item C c (transaction pu) (prevouts pu) = Ok (serialize_sig C s @ [1]) \<and>
        key_of (script_pubkey (prevouts pu ! sign_index c)) = Some pk \<and>
        key_spend_sighash C (transaction pu) (sign_index c) (prevouts pu) = Inr msg \<and>
        verify_schnorr C s msg pk = Inr ())"

text \<open>Input \<open>i\<close> was signed by exactly one successful call, and that call unlocks it.\<close>

definition signed_once ::
    "('txid, 'sk, 'k, 'kp, 'pk, 'tw, 'rng, 'sig, 'te, 'se) crypto \<Rightarrow> (ScriptBuf \<Rightarrow> 'pk option)
     \<Rightarrow> 'txid PayoutUpdate \<Rightarrow> nat \<Rightarrow> (('sk, 'tw, 'rng) sign_call \<times> (unit, 'e) outcome) list \<Rightarrow> bool" where
  "signed_once C key_of pu i calls \<longleftrightarrow>
     successes i calls = 1 \<and>
     (\<forall>(c, r) \<in> set calls. r = Ok () \<and> sign_index c = i \<longrightarrow> unlocks C key_of pu c)"

lemma no_success: "successes i calls = 0 \<longleftrightarrow> (\<forall>(c, r) \<in> set calls. r = Ok () \<longrightarrow> sign_index c \<noteq> i)"
  by (induction i calls rule: successes.induct) auto

text \<open>The call that signed an input signed once is the one that left the item.\<close>

lemma one_success:
  assumes "successes i calls = 1" and "(c, Ok ()) \<in> set calls" "sign_index c = i"
    and "(c', Ok ()) \<in> set calls" "sign_index c' = i"
  shows "c = c'"
  using assms
proof (induction i calls rule: successes.induct)
  case (2 i d r rest)
  show ?case
  proof (cases "r = Ok () \<and> sign_index d = i")
    case True
    then have "successes i rest = 0" using "2.prems"(1) by simp
    with "2.prems"(2-5) show ?thesis by (fastforce simp: no_success)
  next
    case False
    then show ?thesis using 2 by auto
  qed
qed simp

lemma success_at:
  assumes "length rs = length cs" and "(c, r) \<in> set (zip cs rs)"
  obtains j where "j < length cs" "cs ! j = c" "rs ! j = r"
  using assms by (auto simp: set_zip)

text \<open>What the signing calls leave of a fresh payout update, seen from the ledger.\<close>

lemma update_on_ledger:
  assumes amounts: "amount_ops (amount_add B) (amount_sub B)"
    and new: "payout_new B prev coinbase addr fee = Ok pu"
    and funds: "funds B L prev coinbase"
    and signs: "apply_signs C cs pu = (rs, pu')" and tx: "tx = payout_build pu'"
  shows "prevouts pu' = prevouts pu \<and>
    map previous_output (tx_input tx) = first_output B coinbase #
      (case prev of None \<Rightarrow> [] | Some tx \<Rightarrow> [first_output B tx]) \<and>
    length (tx_output tx) = 1 \<and> spent_outputs L tx = prevouts pu \<and>
    length (tx_input tx) = length (prevouts pu) \<and> tx_input tx \<noteq> [] \<and>
    distinct (map previous_output (tx_input tx)) \<and>
    (\<forall>i \<in> set (tx_input tx). L (previous_output i) \<noteq> None) \<and>
    total_value (tx_output tx) + unat fee = total_value (prevouts pu)"
proof -
  obtain amount where amount: "unat amount + unat fee = inputs_value prev coinbase"
    and pu: "pu = \<lparr>transaction =
               \<lparr>tx_version = 2, lock_time = 0,
                tx_input = spends (compute_txid B coinbase) #
                  (case prev of None \<Rightarrow> [] | Some tx \<Rightarrow> [spends (compute_txid B tx)]),
                tx_output = [\<lparr>txout_value = amount, script_pubkey = address_script B addr\<rparr>]\<rparr>,
             coinbase_txout = tx_output coinbase ! 0,
             prev_update_txout = map_option (\<lambda>tx. tx_output tx ! 0) prev\<rparr>"
    using payout_new_Ok [OF amounts new] by blast
  have pu': "pu' = snd (apply_signs C cs pu)" using signs by simp
  note built = signed_build [of tx C cs pu, OF tx [unfolded pu']]
  have points: "map previous_output (tx_input tx) = first_output B coinbase #
      (case prev of None \<Rightarrow> [] | Some tx \<Rightarrow> [first_output B tx])"
    using built(2) pu by (simp add: spends_def first_output_def split: option.split)
  have prevs: "prevouts pu = tx_output coinbase ! 0 # (case prev of None \<Rightarrow> [] | Some tx \<Rightarrow> [tx_output tx ! 0])"
    using pu by (simp add: prevouts_def split: option.split)
  have "prevouts pu' = prevouts pu"
    using frame_prevouts [OF apply_signs_frame] pu' by simp
  moreover have "spent_outputs L tx = prevouts pu"
    using funds by (cases prev) (simp_all add: spent_outputs_def points prevs funds_def List.map_filter_simps)
  moreover have "length (tx_input tx) = length (prevouts pu)" "tx_input tx \<noteq> []"
    using arg_cong [OF points, of length] prevs by (auto split: option.splits)
  moreover have "distinct (map previous_output (tx_input tx))"
    using funds by (auto simp: points funds_def first_output_def split: option.split)
  moreover have "\<forall>i \<in> set (tx_input tx). L (previous_output i) \<noteq> None"
  proof -
    have "\<forall>point \<in> set (map previous_output (tx_input tx)). L point \<noteq> None"
      using funds by (auto simp: points funds_def split: option.split)
    then show ?thesis by simp
  qed
  moreover have "length (tx_output tx) = 1" using built(1) pu by simp
  moreover have "total_value (tx_output tx) + unat fee = total_value (prevouts pu)"
  proof -
    have "tx_output tx = [\<lparr>txout_value = amount, script_pubkey = address_script B addr\<rparr>]"
      using built(1) pu by simp
    moreover have "total_value (prevouts pu) = inputs_value prev coinbase"
      unfolding prevs by (simp add: total_value_def inputs_value_def split: option.split)
    ultimately show ?thesis using amount by (simp add: total_value_def)
  qed
  ultimately show ?thesis using points by blast
qed

text \<open>
  One input of the signed update: it is spendable exactly when exactly one successful call signed
  it, with a signature that unlocks it.
\<close>

lemma input_spendable:
  assumes amounts: "amount_ops (amount_add B) (amount_sub B)"
    and new: "payout_new B prev coinbase addr fee = Ok pu"
    and laws: "sighash_laws (key_spend_sighash C)"
    and signs: "apply_signs C cs pu = (rs, pu')"
    and i: "i < length (prevouts pu)"
  shows "key_spend_ok C key_of (prevouts pu) (payout_build pu') i \<longleftrightarrow> signed_once C key_of pu i (zip cs rs)"
proof -
  have wf: "payout_wf pu" by (rule payout_new_wf [OF amounts new])
  have results: "fst (apply_signs C cs pu) = rs" "snd (apply_signs C cs pu) = pu'" using signs by simp_all
  have len: "length rs = length cs" using length_apply_signs [of C cs pu] results by simp
  have none: "witness_at pu i = []"
    using payout_new_Ok [OF amounts new] i
    by (cases prev) (auto simp: witness_at_def spends_def prevouts_def less_Suc_eq)
  have count: "length (witness_at pu' i) = successes i (zip cs rs)"
    using apply_signs_count [OF wf, of C cs i] results none by simp
  have "frame pu' = frame pu" using apply_signs_frame [of C cs pu] results by simp
  then have sighash: "key_spend_sighash C (transaction pu') i (prevouts pu) =
      key_spend_sighash C (transaction pu) i (prevouts pu)"
    using frame_sighash [OF laws, of pu' pu i] frame_prevouts [of pu' pu] by simp
  show ?thesis
  proof (cases "successes i (zip cs rs) = 1")
    case False
    with count show ?thesis
      by (auto simp: key_spend_ok_def signed_once_def witness_at_def payout_build_def)
  next
    case True
    with count obtain v where v: "witness_at pu' i = [v]" by (cases "witness_at pu' i") auto
    with apply_signs_items_from_calls [OF laws wf, of v cs i] results none obtain j where
      j: "j < length cs" "rs ! j = Ok ()" "sign_index (cs ! j) = i"
      and item: "sign_item C (cs ! j) (transaction pu) (prevouts pu) = Ok v" by auto
    have "(cs ! j, Ok ()) \<in> set (zip cs rs)" using j len by (force simp: set_zip)
    with one_success [OF True] j(3) have "signed_once C key_of pu i (zip cs rs) \<longleftrightarrow> unlocks C key_of pu (cs ! j)"
      unfolding signed_once_def using True by fast
    also have "\<dots> \<longleftrightarrow> key_spend_ok C key_of (prevouts pu) (payout_build pu') i"
      using v item j(3) sighash
      by (auto simp: unlocks_def key_spend_ok_def witness_at_def payout_build_def)
    finally show ?thesis ..
  qed
qed

text \<open>A successful call with the right key unlocks its input.\<close>

lemma right_key_unlocks:
  assumes item: "sign_item C c (transaction pu) (prevouts pu) = Ok v"
    and key: "\<exists>kp. signing_keypair C (fst (sign_key c)) (snd (sign_key c)) = Ok kp \<and>
      key_of (script_pubkey (prevouts pu ! sign_index c)) = Some (x_only_public_key C kp)"
  shows "unlocks C key_of pu c"
  using sign_item_Ok [OF item] item key by (auto simp: unlocks_def)

lemma right_keys_once:
  assumes amounts: "amount_ops (amount_add B) (amount_sub B)"
    and new: "payout_new B prev coinbase addr fee = Ok pu"
    and laws: "sighash_laws (key_spend_sighash C)"
    and signs: "apply_signs C cs pu = (rs, pu')"
    and keys: "right_keys C key_of (prevouts pu) (zip cs rs)"
  shows "signed_once C key_of pu i (zip cs rs) \<longleftrightarrow> successes i (zip cs rs) = 1"
proof -
  have len: "length rs = length cs" using length_apply_signs [of C cs pu] signs by simp
  have "unlocks C key_of pu c" if "(c, r) \<in> set (zip cs rs)" "r = Ok ()" for c r
  proof -
    from success_at [OF len that(1)] obtain j where j: "j < length cs" "cs ! j = c" "rs ! j = r" .
    with apply_signs_items [OF laws payout_new_wf [OF amounts new] j(1), of pu] signs that(2) obtain v where
      "sign_item C c (transaction pu) (prevouts pu) = Ok v" by auto
    moreover have "\<exists>kp. signing_keypair C (fst (sign_key c)) (snd (sign_key c)) = Ok kp \<and>
        key_of (script_pubkey (prevouts pu ! sign_index c)) = Some (x_only_public_key C kp)"
      using keys that unfolding right_keys_def by blast
    ultimately show ?thesis by (rule right_key_unlocks)
  qed
  then show ?thesis by (auto simp: signed_once_def)
qed

section \<open>Chains on a ledger\<close>

text \<open>Every update of the chain was signed exactly once per input, with the right keys.\<close>

fun chain_signed ::
    "('txid, 'addr) bitcoin \<Rightarrow> ('txid, 'sk, 'k, 'kp, 'pk, 'tw, 'rng, 'sig, 'te, 'se) crypto
     \<Rightarrow> (ScriptBuf \<Rightarrow> 'pk option) \<Rightarrow> 'txid Transaction option
     \<Rightarrow> ('txid, 'addr, 'sk, 'tw, 'rng) update_step list \<Rightarrow> bool" where
  "chain_signed B C key_of prev [] = True"
| "chain_signed B C key_of prev (st # sts) =
     (\<forall>pu \<in> oks (payout_new B prev (coinbase_tx st) (next_out_address st) (projected_fee st)).
        (case apply_signs C (sign_calls st) pu of (rs, pu') \<Rightarrow>
           right_keys C key_of (prevouts pu) (zip (sign_calls st) rs) \<and>
           (\<forall>i < length (prevouts pu). successes i (zip (sign_calls st) rs) = 1) \<and>
           chain_signed B C key_of (Some (payout_build pu')) sts))"

fun settle_all ::
    "('txid, 'addr) bitcoin \<Rightarrow> ('txid, 'sk, 'k, 'kp, 'pk, 'tw, 'rng, 'sig, 'te, 'se) crypto
     \<Rightarrow> (ScriptBuf \<Rightarrow> 'pk option) \<Rightarrow> 'txid ledger \<Rightarrow> 'txid Transaction list \<Rightarrow> 'txid ledger option" where
  "settle_all B C key_of L [] = Some L"
| "settle_all B C key_of L (tx # txs) =
     (if accepts C key_of L tx then settle_all B C key_of (settle B L tx) txs else None)"

lemma settle_single:
  assumes "length (tx_output tx) = 1"
  shows "settle B L tx point =
    (if point = first_output B tx then Some (tx_output tx ! 0)
     else if point \<in> set (map previous_output (tx_input tx)) then None else L point)"
proof -
  have "txid point = compute_txid B tx \<and> unat (vout point) < 1 \<longleftrightarrow> point = first_output B tx"
    by (cases point) (auto simp: first_output_def unat_eq_zero)
  moreover have "unat (vout point) = 0" if "point = first_output B tx"
    using that by (simp add: first_output_def)
  ultimately show ?thesis using assms by (simp add: settle_def)
qed

text \<open>The ledger after a chain: one output is left, everything the chain spent is gone.\<close>

definition after_chain ::
    "('txid, 'addr) bitcoin \<Rightarrow> 'txid ledger \<Rightarrow> 'txid Transaction list \<Rightarrow> 'txid Transaction list \<Rightarrow> 'txid ledger" where
  "after_chain B L coinbases txs point =
     (if txs \<noteq> [] \<and> point = first_output B (last txs) then Some (tx_output (last txs) ! 0)
      else if point \<in> first_output B ` (set coinbases \<union> set txs) then None else L point)"

lemma after_chain_Cons:
  assumes "length (tx_output tx) = 1" and "set (map previous_output (tx_input tx)) = first_output B ` ({cb} \<union> set prevs)"
    and "length prevs \<le> 1" and "compute_txid B tx \<notin> compute_txid B ` ({cb} \<union> set prevs)"
  shows "after_chain B (settle B L tx) cbs (tx # txs) = after_chain B L (cb # cbs) (prevs @ tx # txs)"
proof
  fix point
  show "after_chain B (settle B L tx) cbs (tx # txs) point = after_chain B L (cb # cbs) (prevs @ tx # txs) point"
    using assms(2) by (auto simp: after_chain_def settle_single [OF assms(1)])
qed

lemma first_output_inject: "first_output B tx = first_output B tx' \<longleftrightarrow> compute_txid B tx = compute_txid B tx'"
  by (simp add: first_output_def)

lemma chain_settles:
  assumes amounts: "amount_ops (amount_add B) (amount_sub B)" and laws: "sighash_laws (key_spend_sighash C)"
  shows "payout_chain B C prev sts = Ok txs \<Longrightarrow> chain_signed B C key_of prev sts \<Longrightarrow>
    \<forall>st \<in> set sts. L (first_output B (coinbase_tx st)) = Some (tx_output (coinbase_tx st) ! 0) \<Longrightarrow>
    \<forall>tx \<in> set_option prev. L (first_output B tx) = Some (tx_output tx ! 0) \<Longrightarrow>
    distinct (map (compute_txid B) (map coinbase_tx sts @ (case prev of None \<Rightarrow> [] | Some tx \<Rightarrow> [tx]) @ txs)) \<Longrightarrow>
    settle_all B C key_of L txs =
      Some (after_chain B L (map coinbase_tx sts) ((case prev of None \<Rightarrow> [] | Some tx \<Rightarrow> [tx]) @ txs))"
proof (induction sts arbitrary: prev txs L)
  case Nil
  then show ?case by (auto simp: after_chain_def fun_eq_iff split: option.splits)
next
  case (Cons st sts)
  let ?prevs = "case prev of None \<Rightarrow> [] | Some tx \<Rightarrow> [tx]" and ?cb = "coinbase_tx st"
  from Cons.prems(1) obtain pu rs pu' rest where
    new: "payout_new B prev ?cb (next_out_address st) (projected_fee st) = Ok pu"
    and signs: "apply_signs C (sign_calls st) pu = (rs, pu')"
    and rest: "payout_chain B C (Some (payout_build pu')) sts = Ok rest" "txs = payout_build pu' # rest"
    by (cases "apply_signs C (sign_calls st) (case payout_new B prev ?cb (next_out_address st) (projected_fee st) of Ok pu \<Rightarrow> pu)")
      (auto simp: Let_def outcome_simps)
  let ?tx = "payout_build pu'"
  have signed: "right_keys C key_of (prevouts pu) (zip (sign_calls st) rs)"
    "\<forall>i < length (prevouts pu). successes i (zip (sign_calls st) rs) = 1"
    "chain_signed B C key_of (Some ?tx) sts"
    using Cons.prems(2) new signs by simp_all
  have funds: "funds B L prev ?cb"
    using Cons.prems(3-5) by (auto simp: funds_def split: option.splits)
  note on = update_on_ledger [OF amounts new funds signs refl]
  have "accepts C key_of L ?tx"
    using on input_spendable [OF amounts new laws signs] right_keys_once [OF amounts new laws signs signed(1)]
      signed(2) by (auto simp: accepts_def)
  moreover have settled: "settle B L ?tx point = (if point = first_output B ?tx then Some (tx_output ?tx ! 0)
      else if point \<in> set (map previous_output (tx_input ?tx)) then None else L point)" for point
    using on by (intro settle_single) simp
  have "settle_all B C key_of (settle B L ?tx) rest =
      Some (after_chain B (settle B L ?tx) (map coinbase_tx sts) (?tx # rest))"
  proof -
    have "\<forall>st' \<in> set sts. settle B L ?tx (first_output B (coinbase_tx st')) = Some (tx_output (coinbase_tx st') ! 0)"
      using Cons.prems(3,5) on rest(2)
      by (auto simp: settled first_output_inject image_iff split: option.splits)
    moreover have "\<forall>tx \<in> set_option (Some ?tx). settle B L ?tx (first_output B tx) = Some (tx_output tx ! 0)"
      by (simp add: settled)
    moreover have "distinct (map (compute_txid B)
        (map coinbase_tx sts @ (case Some ?tx of None \<Rightarrow> [] | Some tx \<Rightarrow> [tx]) @ rest))"
      using Cons.prems(5) rest(2) by auto
    ultimately show ?thesis
      using Cons.IH [OF rest(1) signed(3), of "settle B L ?tx"] by simp
  qed
  moreover have "after_chain B (settle B L ?tx) (map coinbase_tx sts) (?tx # rest) =
      after_chain B L (?cb # map coinbase_tx sts) (?prevs @ ?tx # rest)"
    using on Cons.prems(5) rest(2) by (intro after_chain_Cons) (auto split: option.splits)
  ultimately show ?case using rest(2) by simp
qed

section \<open>The format of a payout update\<close>

text \<open>A key-path witness item with an explicit sighash type: 64 bytes of signature and 0x01.\<close>

definition taproot_item :: "bytes \<Rightarrow> bool" where
  "taproot_item item \<longleftrightarrow> length item = 65 \<and> last item = 1"

definition update_format :: "'txid Transaction \<Rightarrow> bool" where
  "update_format tx \<longleftrightarrow> tx_version tx = 2 \<and> lock_time tx = 0 \<and> length (tx_output tx) = 1 \<and>
     0 < length (tx_input tx) \<and> length (tx_input tx) \<le> 2 \<and>
     list_all (\<lambda>i. script_sig i = [] \<and> sequence i = 0xFFFFFFFF \<and> vout (previous_output i) = 0 \<and>
       list_all taproot_item (witness i)) (tx_input tx)"

lemma unsigned_inputD:
  assumes "unsigned_tx tx = unsigned_tx tx'" and "i \<in> set (tx_input tx)"
  obtains i' where "i' \<in> set (tx_input tx')" "script_sig i = script_sig i'" "sequence i = sequence i'"
    "previous_output i = previous_output i'"
proof -
  have "map (\<lambda>i. i\<lparr>witness := []\<rparr>) (tx_input tx) = map (\<lambda>i. i\<lparr>witness := []\<rparr>) (tx_input tx')"
    using arg_cong [OF assms(1), of tx_input] by (simp add: unsigned_tx_def)
  then have "i\<lparr>witness := []\<rparr> \<in> (\<lambda>i. i\<lparr>witness := []\<rparr>) ` set (tx_input tx')"
    using assms(2) by (metis imageI set_map)
  then obtain i' where i': "i' \<in> set (tx_input tx')" "i\<lparr>witness := []\<rparr> = i'\<lparr>witness := []\<rparr>" by blast
  show ?thesis
    using that [OF i'(1)] arg_cong [OF i'(2), of script_sig] arg_cong [OF i'(2), of sequence]
      arg_cong [OF i'(2), of previous_output] by simp
qed

lemma unsigned_tx_head: "unsigned_tx tx = unsigned_tx tx' \<Longrightarrow> tx_version tx = tx_version tx' \<and> lock_time tx = lock_time tx'"
  by (drule arg_cong [where f = "\<lambda>t. (tx_version t, lock_time t)"]) (simp add: unsigned_tx_def)

section \<open>Properties\<close>

text \<open>
  C7. The network accepts the transaction of a signed payout update exactly when each of its inputs
  was signed by exactly one successful call, and that call's signature verifies under the key
  that the input's script names; the outputs it was built from are the ones the ledger holds. A
  call that used the right key always unlocks its input, because \<open>add_signature\<close> verified the
  signature; so if every successful call did, the transaction is accepted exactly when each
  input was signed once. Signing an input a second time makes the transaction unspendable: the
  second signature is added to the witness.
\<close>

theorem update_accepted_iff_signed_once:
  assumes amounts: "amount_ops (amount_add B) (amount_sub B)"
    and new: "payout_new B prev coinbase addr fee = Ok pu"
    and laws: "sighash_laws (key_spend_sighash C)"
    and signs: "apply_signs C cs pu = (rs, pu')"
    and funds: "funds B L prev coinbase"
  shows "(accepts C key_of L (payout_build pu') \<longleftrightarrow>
      (\<forall>i < length (prevouts pu). signed_once C key_of pu i (zip cs rs))) \<and>
    (right_keys C key_of (prevouts pu) (zip cs rs) \<longrightarrow>
      (accepts C key_of L (payout_build pu') \<longleftrightarrow>
        (\<forall>i < length (prevouts pu). successes i (zip cs rs) = 1)))"
  using update_on_ledger [OF amounts new funds signs refl]
    input_spendable [OF amounts new laws signs] right_keys_once [OF amounts new laws signs]
  by (auto simp: accepts_def)

definition sample_key_of :: "ScriptBuf \<Rightarrow> nat option" where
  "sample_key_of script = (if script = [] then Some 3 else None)"

definition two_coins :: "nat ledger" where
  "two_coins point =
     (if point \<in> {\<lparr>txid = 1, vout = 0\<rparr>, \<lparr>txid = 2, vout = 0\<rparr>}
      then Some \<lparr>txout_value = 50000000, script_pubkey = []\<rparr> else None)"

text \<open>A previous update with a second output, so that its id differs from the coinbase's.\<close>

definition other_transaction :: "nat Transaction" where
  "other_transaction = create_dummy_transaction
     \<lparr>tx_output := tx_output (create_dummy_transaction :: nat Transaction) @ [\<lparr>txout_value = 0, script_pubkey = []\<rparr>]\<rparr>"

definition sample_update :: "nat PayoutUpdate" where
  "sample_update = sample_payout\<lparr>transaction := (transaction sample_payout)\<lparr>tx_input := [spends 1, spends 2]\<rparr>\<rparr>"

lemma sample_update_new:
  "payout_new sample_bitcoin (Some other_transaction) create_dummy_transaction 7 1000 = Ok sample_update"
  by (simp add: sample_defs other_transaction_def sample_update_def payout_new_def builder_defs index_def
      checked_add_def checked_sub_def)

lemma sample_funds: "funds sample_bitcoin two_coins (Some other_transaction) create_dummy_transaction"
  by (simp add: funds_def first_output_def two_coins_def sample_defs other_transaction_def)

lemma sample_signs:
  "apply_signs sample_crypto [SignCoinbase k None 0, SignPrevUpdate 1 (Some 2) 0] sample_update =
     ([Ok (), Ok ()], snd (apply_signs sample_crypto [SignCoinbase k None 0, SignPrevUpdate 1 (Some 2) 0] sample_update))"
  by (simp add: sample_defs sample_update_def sample_crypto_def add_coinbase_sig_def add_prev_update_sig_def
      prevouts_def add_signature_def signature_bytes_def signing_keypair_def push_witness_def)

text \<open>The right keys are 3 for both inputs: 3 itself, and 1 tweaked by 2. Signing the coinbase with 4 is
  accepted by \<open>add_signature\<close> but not by the network.\<close>

lemma update_accepted_iff_signed_once_witness:
  "accepts sample_crypto sample_key_of two_coins
     (payout_build (snd (apply_signs sample_crypto [SignCoinbase 3 None 0, SignPrevUpdate 1 (Some 2) 0] sample_update))) \<and>
   \<not> accepts sample_crypto sample_key_of two_coins
     (payout_build (snd (apply_signs sample_crypto [SignCoinbase 4 None 0, SignPrevUpdate 1 (Some 2) 0] sample_update)))"
proof
  let ?calls = "\<lambda>k. zip [SignCoinbase k None 0, SignPrevUpdate 1 (Some 2) 0]
    ([Ok (), Ok ()] :: (unit, (unit, unit) UhpoError) outcome list)"
  note main = update_accepted_iff_signed_once [OF sample_amounts sample_update_new sample_sighash_laws
      sample_signs sample_funds, of sample_key_of]
  have "right_keys sample_crypto sample_key_of (prevouts sample_update) (?calls 3)"
    by (simp add: right_keys_def sample_key_of_def sample_defs sample_update_def prevouts_def sample_crypto_def
        signing_keypair_def)
  moreover have "\<forall>i < length (prevouts sample_update). successes i (?calls 3) = 1"
    by (simp add: sample_defs sample_update_def prevouts_def less_Suc_eq)
  ultimately show "accepts sample_crypto sample_key_of two_coins
     (payout_build (snd (apply_signs sample_crypto [SignCoinbase 3 None 0, SignPrevUpdate 1 (Some 2) 0] sample_update)))"
    using main [of 3] by blast
  have "\<not> unlocks sample_crypto sample_key_of sample_update (SignCoinbase 4 None 0)"
    by (auto simp: unlocks_def sample_key_of_def sample_defs sample_update_def prevouts_def sample_crypto_def
        signature_bytes_def signing_keypair_def split: if_splits)
  then have "\<not> signed_once sample_crypto sample_key_of sample_update 0 (?calls 4)"
    by (simp add: signed_once_def)
  moreover have "0 < length (prevouts sample_update)" by (simp add: prevouts_def split: option.split)
  ultimately show "\<not> accepts sample_crypto sample_key_of two_coins
     (payout_build (snd (apply_signs sample_crypto [SignCoinbase 4 None 0, SignPrevUpdate 1 (Some 2) 0] sample_update)))"
    using main [of 4] by blast
qed

text \<open>
  C22. A chain of payout updates whose transactions and coinbases have pairwise different ids, each
  update signed by one successful call per input, every successful call with the key its input's
  script names, settles on the ledger: starting from its coinbase outputs the network accepts its transactions one after the
  other, and in the end every coinbase and every earlier update is spent and only the last
  update's output is left, which by the balance of the chain pays out everything less the fees.
\<close>

theorem chain_settles_on_ledger:
  assumes amounts: "amount_ops (amount_add B) (amount_sub B)" and laws: "sighash_laws (key_spend_sighash C)"
    and chain: "payout_chain B C None sts = Ok txs" and signed: "chain_signed B C key_of None sts"
    and coins: "\<forall>st \<in> set sts. L (first_output B (coinbase_tx st)) = Some (tx_output (coinbase_tx st) ! 0)"
    and ids: "distinct (map (compute_txid B) (map coinbase_tx sts @ txs))"
  shows "\<exists>L'. settle_all B C key_of L txs = Some L' \<and>
    (txs \<noteq> [] \<longrightarrow> L' (first_output B (last txs)) = Some (tx_output (last txs) ! 0)) \<and>
    (\<forall>st \<in> set sts. L' (first_output B (coinbase_tx st)) = None) \<and>
    (\<forall>tx \<in> set (butlast txs). L' (first_output B tx) = None)"
proof -
  let ?L = "after_chain B L (map coinbase_tx sts) txs"
  have "settle_all B C key_of L txs = Some ?L"
    using chain_settles [OF amounts laws chain signed coins] ids by simp
  moreover have "txs \<noteq> [] \<longrightarrow> ?L (first_output B (last txs)) = Some (tx_output (last txs) ! 0)"
    by (simp add: after_chain_def)
  moreover have "?L (first_output B (coinbase_tx st)) = None" if st: "st \<in> set sts" for st
  proof -
    have "compute_txid B (coinbase_tx st) \<noteq> compute_txid B (last txs)" if "txs \<noteq> []"
      using ids st last_in_set [OF that] by auto
    with st show ?thesis by (auto simp: after_chain_def first_output_inject)
  qed
  moreover have "?L (first_output B tx) = None" if tx: "tx \<in> set (butlast txs)" for tx
  proof -
    have "txs \<noteq> []" using tx by auto
    then have "distinct (map (compute_txid B) (butlast txs @ [last txs]))" using ids by simp
    then have "compute_txid B tx \<noteq> compute_txid B (last txs)" using tx by (auto simp: rev_image_eqI)
    with in_set_butlastD [OF tx] show ?thesis by (auto simp: after_chain_def first_output_inject)
  qed
  ultimately show ?thesis by blast
qed

text \<open>Two updates, with ids and coins that differ.\<close>

definition value_bitcoin :: "(nat, u8) bitcoin" where
  "value_bitcoin = sample_bitcoin\<lparr>compute_txid := \<lambda>tx. unat (txout_value (tx_output tx ! 0))\<rparr>"

definition coin :: "Amount \<Rightarrow> nat Transaction" where
  "coin v = create_dummy_transaction\<lparr>tx_output := [\<lparr>txout_value = v, script_pubkey = []\<rparr>]\<rparr>"

definition paying_step :: "Amount \<Rightarrow> (nat, nat, nat) sign_call list \<Rightarrow> (nat, u8, nat, nat, nat) update_step" where
  "paying_step v calls = \<lparr>coinbase_tx = coin v, next_out_address = 7, projected_fee = 10, sign_calls = calls\<rparr>"

definition two_steps :: "(nat, u8, nat, nat, nat) update_step list" where
  "two_steps = [paying_step 100 [SignCoinbase 3 None 0], paying_step 200 sample_calls]"

definition two_keys :: "ScriptBuf \<Rightarrow> nat option" where
  "two_keys script = (if script = [] then Some 3 else if script = [7] then Some 9 else None)"

definition coins_of :: "nat ledger" where
  "coins_of point =
     (if point = \<lparr>txid = 100, vout = 0\<rparr> then Some \<lparr>txout_value = 100, script_pubkey = []\<rparr>
      else if point = \<lparr>txid = 200, vout = 0\<rparr> then Some \<lparr>txout_value = 200, script_pubkey = []\<rparr> else None)"

lemmas two_defs = two_steps_def paying_step_def coin_def value_bitcoin_def sample_defs sample_crypto_def
  payout_new_def builder_defs index_def checked_add_def checked_sub_def add_coinbase_sig_def
  add_prev_update_sig_def prevouts_def add_signature_def signature_bytes_def signing_keypair_def
  push_witness_def payout_build_def

definition two_txs :: "nat Transaction list" where
  "two_txs = (case payout_chain value_bitcoin sample_crypto None two_steps of Ok txs \<Rightarrow> txs | _ \<Rightarrow> [])"

lemma two_txs_eq:
  "payout_chain value_bitcoin sample_crypto None two_steps = Ok two_txs"
  "map (\<lambda>tx. unat (txout_value (tx_output tx ! 0))) two_txs = [90, 280]"
  by (simp_all add: two_txs_def two_defs)

lemma two_signed: "chain_signed value_bitcoin sample_crypto two_keys None two_steps"
  by (simp add: two_defs two_keys_def right_keys_def less_Suc_eq)

lemma two_coins_of:
  "\<forall>st \<in> set two_steps. coins_of (first_output value_bitcoin (coinbase_tx st)) = Some (tx_output (coinbase_tx st) ! 0)"
  by (simp add: two_steps_def paying_step_def coin_def coins_of_def first_output_def value_bitcoin_def sample_bitcoin_def)

lemma two_ids: "distinct (map (compute_txid value_bitcoin) (map coinbase_tx two_steps @ two_txs))"
  using two_txs_eq(2) by (simp add: value_bitcoin_def two_steps_def paying_step_def coin_def)

lemma chain_settles_on_ledger_witness:
  "\<exists>L'. settle_all value_bitcoin sample_crypto two_keys coins_of two_txs = Some L' \<and>
     L' (first_output value_bitcoin (coin 100)) = None \<and> L' (first_output value_bitcoin (coin 200)) = None"
  using chain_settles_on_ledger [where B = value_bitcoin and C = sample_crypto and key_of = two_keys
      and L = coins_of, OF _ sample_sighash_laws two_txs_eq(1) two_signed two_coins_of two_ids]
    sample_amounts
  by (auto simp: two_steps_def paying_step_def value_bitcoin_def)

text \<open>
  C29. Whatever signing calls are made, failing ones included, the transaction \<open>build\<close> returns has the
  format of a payout update: version 2, no lock time, one output, one or two inputs with empty
  scripts and final sequence numbers, and every witness item is a 64 byte signature with the
  sighash byte 0x01.
\<close>

theorem built_update_format:
  assumes amounts: "amount_ops (amount_add B) (amount_sub B)"
    and new: "payout_new B prev coinbase addr fee = Ok pu"
    and laws: "sighash_laws (key_spend_sighash C)" and sizes: "\<And>s. length (serialize_sig C s) = 64"
  shows "update_format (payout_build (snd (apply_signs C cs pu)))"
proof -
  let ?pu = "snd (apply_signs C cs pu)"
  let ?tx = "payout_build ?pu"
  have wf: "payout_wf pu" by (rule payout_new_wf [OF amounts new])
  have same: "unsigned_tx ?tx = unsigned_tx (transaction pu)"
    using apply_signs_frame [of C cs pu] by (simp add: frame_def payout_build_def)
  have fresh: "tx_version (transaction pu) = 2 \<and> lock_time (transaction pu) = 0 \<and>
      length (tx_output (transaction pu)) = 1 \<and> length (tx_input (transaction pu)) \<in> {1, 2} \<and>
      (\<forall>i \<in> set (tx_input (transaction pu)). script_sig i = [] \<and> sequence i = 0xFFFFFFFF \<and>
         vout (previous_output i) = 0)"
    "\<And>i. i < length (tx_input (transaction pu)) \<Longrightarrow> witness_at pu i = []"
    using payout_new_Ok [OF amounts new]
    by (cases prev; auto simp: spends_def witness_at_def less_Suc_eq)+
  have items: "list_all taproot_item (witness i)" if "i \<in> set (tx_input ?tx)" for i
  proof -
    obtain k where k: "k < length (tx_input ?tx)" "tx_input ?tx ! k = i" using \<open>i \<in> set (tx_input ?tx)\<close>
      by (metis in_set_conv_nth)
    have "taproot_item v" if v: "v \<in> set (witness_at ?pu k)" for v
    proof -
      have "witness_at pu k = []" using fresh(2) k(1) unsigned_tx_inputs [OF same] by simp
      with apply_signs_items_from_calls [OF laws wf v] obtain c where
        "sign_item C c (transaction pu) (prevouts pu) = Ok v" by auto
      from sign_item_Ok [OF this] sizes show ?thesis by (auto simp: taproot_item_def)
    qed
    with k show ?thesis by (simp add: list_all_iff witness_at_def payout_build_def)
  qed
  have inputs: "script_sig i = [] \<and> sequence i = 0xFFFFFFFF \<and> vout (previous_output i) = 0"
    if "i \<in> set (tx_input ?tx)" for i
    using fresh(1) by (metis unsigned_inputD [OF same that])
  show ?thesis
    using fresh(1) unsigned_tx_head [OF same] unsigned_tx_inputs [OF same] unsigned_tx_outputs [OF same]
      items inputs by (auto simp: update_format_def list_all_iff)
qed

lemma built_update_format_witness:
  "update_format (payout_build (snd (apply_signs sample_crypto sample_calls sample_payout)))"
  by (rule built_update_format [OF sample_amounts sample_new sample_sighash_laws])
    (simp add: sample_crypto_def)

end
