(* ===== verification/Printing.thy ===== *)
theory Printing
  imports Prelude
begin

text \<open>
  The parts of the standard library's formatting the program relies on: an unsigned
  integer in decimal (\<open>usize::to_string\<close>) and lower-case hexadecimal, and
  \<open>SocketAddr::to_string\<close> for IPv4 and IPv6. The lemmas give what callers need of them:
  a printed number reads back, and it holds no colon, so a \<open>host:port\<close> string splits at
  its last colon.
\<close>

section \<open>Numbers\<close>

definition digit_char :: "nat \<Rightarrow> char" where
  "digit_char d = ''0123456789abcdef'' ! d"

fun position :: "char \<Rightarrow> string \<Rightarrow> nat" where
  "position c [] = 0"
| "position c (x # xs) = (if c = x then 0 else Suc (position c xs))"

definition digit_val :: "char \<Rightarrow> nat" where
  "digit_val c = position c ''0123456789abcdef''"

function radix :: "nat \<Rightarrow> nat \<Rightarrow> string" where
  "radix b n = (if b < 2 \<or> n < b then [digit_char n] else radix b (n div b) @ [digit_char (n mod b)])"
  by pat_completeness auto
termination
  by (relation "measure (\<lambda>(b, n). n)") auto

declare radix.simps [simp del]

definition radix_val :: "nat \<Rightarrow> string \<Rightarrow> nat" where
  "radix_val b s = foldl (\<lambda>acc c. acc * b + digit_val c) 0 s"

abbreviation separators :: "char list" where
  "separators \<equiv> [CHR '':'', CHR ''.'', CHR ''%'', CHR ''['', CHR '']'']"

lemma digits_table:
  "list_all (\<lambda>d. digit_val (digit_char d) = d \<and> digit_char d \<notin> set separators) [0..<16]"
  by code_simp

lemma digit_val_char [simp]: "d < 16 \<Longrightarrow> digit_val (digit_char d) = d"
  using digits_table by (auto simp: list_all_iff)

lemma digit_char_no_separator: "d < 16 \<Longrightarrow> digit_char d \<notin> set separators"
  using digits_table by (force simp: list_all_iff)

lemma mod_less_16: "2 \<le> b \<Longrightarrow> b \<le> 16 \<Longrightarrow> n mod b < (16::nat)"
  by (rule less_le_trans [OF mod_less_divisor]) auto

lemma radix_roundtrip:
  assumes "2 \<le> b" and "b \<le> 16"
  shows "radix_val b (radix b n) = n"
proof (induction n rule: less_induct)
  case (less n)
  show ?case
  proof (cases "n < b")
    case True
    with assms show ?thesis by (subst radix.simps) (simp add: radix_val_def)
  next
    case False
    with assms have "n div b < n" by simp
    then have "radix_val b (radix b (n div b)) = n div b" by (rule less)
    moreover have "n mod b < 16" using assms by (rule mod_less_16)
    ultimately show ?thesis
      using False assms by (subst radix.simps) (simp add: radix_val_def)
  qed
qed

lemma radix_no_separator:
  assumes "2 \<le> b" and "b \<le> 16" and "c \<in> set separators"
  shows "c \<notin> set (radix b n)"
proof (induction n rule: less_induct)
  case (less n)
  show ?case
  proof (cases "n < b")
    case True
    with assms have "n < 16" by simp
    then have "digit_char n \<noteq> c" using digit_char_no_separator assms(3) by blast
    with True show ?thesis by (subst radix.simps) auto
  next
    case False
    with assms have "n div b < n" by simp
    then have "c \<notin> set (radix b (n div b))" by (rule less)
    moreover have "digit_char (n mod b) \<noteq> c" using digit_char_no_separator [OF mod_less_16 [OF assms(1,2)]] assms(3) by blast
    ultimately show ?thesis using False assms by (subst radix.simps) auto
  qed
qed

lemma radix_not_Nil [simp]: "radix b n \<noteq> []"
  by (subst radix.simps) simp

text \<open>\<open>to_string\<close> of an unsigned integer.\<close>

definition dec :: "'a::len word \<Rightarrow> string" where
  "dec w = radix 10 (unat w)"

definition hex :: "'a::len word \<Rightarrow> string" where
  "hex w = radix 16 (unat w)"

definition undec :: "string \<Rightarrow> 'a::len word" where
  "undec s = word_of_nat (radix_val 10 s)"

lemma undec_dec [simp]: "undec (dec w) = w"
  by (simp add: undec_def dec_def radix_roundtrip)

lemma dec_inject [simp]: "dec v = dec w \<longleftrightarrow> v = w"
  by (metis undec_dec)

lemma dec_no_colon [simp]: "CHR '':'' \<notin> set (dec w)"
  unfolding dec_def by (rule radix_no_separator) auto

lemma dec_no_dot [simp]: "CHR ''.'' \<notin> set (dec w)"
  unfolding dec_def by (rule radix_no_separator) auto

section \<open>Splitting at a separator\<close>

text \<open>The part before the first \<open>c\<close> and the part after it.\<close>

definition split_first :: "'a \<Rightarrow> 'a list \<Rightarrow> 'a list \<times> 'a list" where
  "split_first c s = (takeWhile (\<lambda>x. x \<noteq> c) s, drop 1 (dropWhile (\<lambda>x. x \<noteq> c) s))"

text \<open>The part before the last \<open>c\<close> and the part after it.\<close>

definition split_last :: "'a \<Rightarrow> 'a list \<Rightarrow> 'a list \<times> 'a list" where
  "split_last c s = (case split_first c (rev s) of (p, h) \<Rightarrow> (rev h, rev p))"

lemma split_first_append [simp]: "c \<notin> set p \<Longrightarrow> split_first c (p @ c # h) = (p, h)"
  by (induction p) (auto simp: split_first_def)

lemma split_last_append [simp]: "c \<notin> set p \<Longrightarrow> split_last c (h @ c # p) = (h, p)"
  by (simp add: split_last_def)

lemma append_sep_inject:
  assumes "p @ c # h = p' @ c # h'" and "c \<notin> set p" and "c \<notin> set p'"
  shows "p = p' \<and> h = h'"
  using arg_cong [OF assms(1), of "split_first c"] assms(2,3) by simp

lemma sep_append_inject:
  assumes "h @ c # p = h' @ c # p'" and "c \<notin> set p" and "c \<notin> set p'"
  shows "h = h' \<and> p = p'"
  using arg_cong [OF assms(1), of "split_last c"] assms(2,3) by simp

section \<open>Socket addresses\<close>

text \<open>
  \<open>std::net::SocketAddr\<close>: four octets and a port, or eight 16-bit segments with port, flow
  information and scope.
\<close>

datatype SocketAddr =
    V4 u8 u8 u8 u8 u16
  | V6 "u16 list" u16 u32 u32

definition ipv4_to_string :: "u8 \<Rightarrow> u8 \<Rightarrow> u8 \<Rightarrow> u8 \<Rightarrow> string" where
  "ipv4_to_string a b c d = dec a @ ''.'' @ dec b @ ''.'' @ dec c @ ''.'' @ dec d"

fun intersperse :: "string \<Rightarrow> string list \<Rightarrow> string" where
  "intersperse sep [] = []"
| "intersperse sep [x] = x"
| "intersperse sep (x # xs) = x @ sep @ intersperse sep xs"

text \<open>
  The standard library compresses the first longest run of zero segments, when it is longer
  than one segment. The scan keeps the current run and the longest run so far, each as
  (start, length), and replaces the longest only by a strictly longer one.
\<close>

fun longest_zero_run :: "nat \<Rightarrow> nat \<times> nat \<Rightarrow> nat \<times> nat \<Rightarrow> u16 list \<Rightarrow> nat \<times> nat" where
  "longest_zero_run i cur best [] = best"
| "longest_zero_run i cur best (s # ss) =
     (if s = 0
      then (let cur' = (if snd cur = 0 then (i, 1) else (fst cur, Suc (snd cur)))
            in longest_zero_run (Suc i) cur' (if snd cur' > snd best then cur' else best) ss)
      else longest_zero_run (Suc i) (0, 0) best ss)"

definition ipv4_mapped :: "u16 list \<Rightarrow> bool" where
  "ipv4_mapped segs \<longleftrightarrow> length segs = 8 \<and> take 6 segs = [0, 0, 0, 0, 0, 0xffff]"

definition ipv6_to_string :: "u16 list \<Rightarrow> string" where
  "ipv6_to_string segs =
     (if ipv4_mapped segs
      then ''::ffff:'' @ ipv4_to_string (ucast (drop_bit 8 (segs ! 6))) (ucast (segs ! 6))
                                        (ucast (drop_bit 8 (segs ! 7))) (ucast (segs ! 7))
      else (case longest_zero_run 0 (0, 0) (0, 0) segs of (start, len) \<Rightarrow>
        if len > 1
        then intersperse '':'' (map hex (take start segs)) @ ''::'' @
             intersperse '':'' (map hex (drop (start + len) segs))
        else intersperse '':'' (map hex segs)))"

fun addr_to_string :: "SocketAddr \<Rightarrow> string" where
  "addr_to_string (V4 a b c d port) = ipv4_to_string a b c d @ '':'' @ dec port"
| "addr_to_string (V6 segs port flowinfo scope) =
     (if scope = 0 then ''['' @ ipv6_to_string segs @ '']:'' @ dec port
      else ''['' @ ipv6_to_string segs @ ''%'' @ dec scope @ '']:'' @ dec port)"

lemma ipv4_to_string_inject:
  "ipv4_to_string a b c d = ipv4_to_string a' b' c' d' \<longleftrightarrow> a = a' \<and> b = b' \<and> c = c' \<and> d = d'"
proof
  assume "ipv4_to_string a b c d = ipv4_to_string a' b' c' d'"
  then have "dec a @ CHR ''.'' # dec b @ CHR ''.'' # dec c @ CHR ''.'' # dec d =
             dec a' @ CHR ''.'' # dec b' @ CHR ''.'' # dec c' @ CHR ''.'' # dec d'"
    by (simp add: ipv4_to_string_def)
  then show "a = a' \<and> b = b' \<and> c = c' \<and> d = d'"
    by (metis append_sep_inject dec_no_dot dec_inject)
qed simp

lemma addr_to_string_port:
  "fst (split_last CHR '':'' (addr_to_string (V4 a b c d port))) = ipv4_to_string a b c d"
  "undec (snd (split_last CHR '':'' (addr_to_string (V4 a b c d port)))) = port"
  by simp_all

lemma addr_to_string_V4_inject:
  "addr_to_string (V4 a b c d p) = addr_to_string (V4 a' b' c' d' p') \<longleftrightarrow>
   V4 a b c d p = V4 a' b' c' d' p'"
  by (auto simp: ipv4_to_string_inject dest!: sep_append_inject)

end
