(* ===== verification/Protocol.thy ===== *)
theory Protocol
  imports Printing
begin

text \<open>
  The crate \<open>protocol\<close> (node/protocol/src): the three messages, the trait
  \<open>ProtocolMessage\<close> with its implementations, the enum \<open>Message\<close> and its dispatch, and the
  conversion to and from bytes. The flexbuffers serializer and deserializer are the
  parameters \<open>ser\<close> (None: the serializer failed) and \<open>de\<close>. The trait is the locale
  \<open>protocol_message\<close>, with the contract the connection code relies on; each message type
  interprets it.
\<close>

section \<open>Messages\<close>

record PingMessage =
  ping_message :: string

record HandshakeMessage =
  message :: string
  version :: string

record HeartbeatMessage =
  from_addr :: string
  time :: SystemTime

datatype Message =
    Ping PingMessage
  | Handshake HandshakeMessage
  | Heartbeat HeartbeatMessage

type_synonym response = "(Message option, string) outcome"

section \<open>Implementations of the trait\<close>

definition ping_start :: "SocketAddr \<Rightarrow> Message option" where
  "ping_start addr = Some (Ping \<lparr>ping_message = ''ping''\<rparr>)"

definition ping_response_for_received :: "PingMessage \<Rightarrow> response" where
  "ping_response_for_received self =
     (if ping_message self = ''ping''
      then Ok (Some (Ping \<lparr>ping_message = ''pong''\<rparr>))
      else Ok None)"

definition handshake_start :: "SocketAddr \<Rightarrow> Message option" where
  "handshake_start addr = Some (Handshake \<lparr>message = ''helo'', version = ''0.1.0''\<rparr>)"

definition handshake_response_for_received :: "HandshakeMessage \<Rightarrow> response" where
  "handshake_response_for_received self =
     (if message self = ''helo'' \<and> version self = ''0.1.0''
      then Ok (Some (Handshake \<lparr>message = ''oleh'', version = ''0.1.0''\<rparr>))
      else if message self = ''oleh'' \<and> version self = ''0.1.0''
      then Ok None
      else Err ''Bad message'')"

text \<open>\<open>now\<close> is the value \<open>SystemTime::now()\<close> returned.\<close>

definition heartbeat_start :: "SystemTime \<Rightarrow> SocketAddr \<Rightarrow> Message option" where
  "heartbeat_start now addr =
     Some (Heartbeat \<lparr>from_addr = addr_to_string addr, time = now\<rparr>)"

definition heartbeat_response_for_received :: "HeartbeatMessage \<Rightarrow> response" where
  "heartbeat_response_for_received self = Ok None"

section \<open>Message: dispatch and serialization\<close>

fun response_for_received :: "Message \<Rightarrow> response" where
  "response_for_received (Ping m) = ping_response_for_received m"
| "response_for_received (Handshake m) = handshake_response_for_received m"
| "response_for_received (Heartbeat m) = heartbeat_response_for_received m"

definition as_bytes :: "(Message \<Rightarrow> bytes option) \<Rightarrow> Message \<Rightarrow> (bytes option, 'e) outcome" where
  "as_bytes ser self = and_then (unwrap (ser self)) (\<lambda>buffer. Ok (Some buffer))"

definition from_bytes :: "(bytes \<Rightarrow> 'e + Message) \<Rightarrow> bytes \<Rightarrow> (Message, 'e) outcome" where
  "from_bytes de b = map_err (\<lambda>e. e) (de b)"

lemmas response_defs =
  ping_response_for_received_def handshake_response_for_received_def
  heartbeat_response_for_received_def

lemmas start_defs = ping_start_def handshake_start_def heartbeat_start_def

lemma as_bytes_eq_Ok [outcome_simps]: "as_bytes ser m = Ok b \<longleftrightarrow> (\<exists>buf. ser m = Some buf \<and> b = Some buf)"
  by (auto simp: as_bytes_def outcome_simps)

lemma as_bytes_not_Err [simp]: "as_bytes ser m \<noteq> Err e"
  by (simp add: as_bytes_def outcome_simps)

lemma as_bytes_panics [simp]: "panics (as_bytes ser m) \<longleftrightarrow> ser m = None"
  by (cases "ser m") (simp_all add: as_bytes_def)

lemma from_bytes_eq_Ok [outcome_simps]: "from_bytes de b = Ok m \<longleftrightarrow> de b = Inr m"
  by (simp add: from_bytes_def outcome_simps)

lemma from_bytes_not_Panic [simp]: "from_bytes de b \<noteq> Panic p"
  by (simp add: from_bytes_def)

section \<open>The trait as a contract\<close>

text \<open>
  What the code around the trait relies on. \<open>start\<close> gives a message of its own type
  (\<open>connection::start\<close> unwraps it), a peer running the same code accepts it, no response
  panics, and a response is of the sender's own type and is itself answered by silence.
\<close>

locale protocol_message =
  fixes wrap :: "'m \<Rightarrow> Message"
    and start :: "SocketAddr \<Rightarrow> Message option"
    and respond :: "'m \<Rightarrow> response"
  assumes dispatch: "response_for_received (wrap m) = respond m"
    and start_own: "\<exists>m. start addr = Some (wrap m) \<and> is_ok (respond m)"
    and respond_no_panic: "\<not> panics (respond m)"
    and respond_own: "respond m = Ok (Some r) \<Longrightarrow> r \<in> range wrap"
    and respond_silent: "respond m = Ok (Some r) \<Longrightarrow> response_for_received r = Ok None"
begin

lemma start_unwraps: "\<exists>m. (unwrap (start addr) :: (Message, 'e) outcome) = Ok (wrap m)"
  using start_own [of addr] by auto

lemma start_accepted:
  "start addr = Some msg \<Longrightarrow> is_ok (response_for_received msg)"
  using start_own [of addr] by (auto simp: dispatch)

lemma response_own:
  "response_for_received (wrap m) = Ok (Some r) \<Longrightarrow> r \<in> range wrap"
  by (simp add: dispatch respond_own)

lemma response_silent:
  "response_for_received (wrap m) = Ok (Some r) \<Longrightarrow> response_for_received r = Ok None"
  by (simp add: dispatch respond_silent)

lemma wrapped_no_panic: "\<not> panics (response_for_received (wrap m))"
  by (simp add: dispatch respond_no_panic)

end

interpretation ping: protocol_message Ping ping_start ping_response_for_received
  by unfold_locales (auto simp: response_defs start_defs split: if_splits)

interpretation handshake: protocol_message Handshake handshake_start handshake_response_for_received
  by unfold_locales (auto simp: response_defs start_defs split: if_splits)

interpretation heartbeat: protocol_message Heartbeat "heartbeat_start now"
    heartbeat_response_for_received for now
  by unfold_locales (auto simp: response_defs start_defs)

lemma response_then_silence:
  "response_for_received msg = Ok (Some r) \<Longrightarrow> response_for_received r = Ok None"
  by (cases msg) (auto dest: ping.response_silent handshake.response_silent heartbeat.response_silent
      simp del: response_for_received.simps)

lemma response_no_panic [simp]: "response_for_received msg \<noteq> Panic p"
  using ping.wrapped_no_panic handshake.wrapped_no_panic heartbeat.wrapped_no_panic
  by (cases msg) (auto simp: panics_iff simp del: response_for_received.simps)

section \<open>Conversations between two nodes\<close>

text \<open>
  Every message a node receives is answered by \<open>response_for_received\<close>, and the answer goes
  back to the sender, which answers it in turn. \<open>dialogue msg\<close> is the list of messages that
  follow when \<open>msg\<close> is delivered. Its termination is the fact that no exchange of the
  protocol runs for ever.
\<close>

function dialogue :: "Message \<Rightarrow> Message list" where
  "dialogue msg =
     (case response_for_received msg of
        Ok (Some r) \<Rightarrow> r # dialogue r
      | _ \<Rightarrow> [])"
  by pat_completeness auto
termination
  by (relation "measure (\<lambda>m. if response_for_received m = Ok None then 0 else 1)")
     (auto dest: response_then_silence simp del: response_for_received.simps)

declare dialogue.simps [simp del]

lemma dialogue_silent: "response_for_received msg = Ok None \<Longrightarrow> dialogue msg = []"
  by (subst dialogue.simps) simp

lemma dialogue_answer: "response_for_received msg = Ok (Some r) \<Longrightarrow> dialogue msg = [r]"
  by (subst dialogue.simps) (simp add: dialogue_silent response_then_silence)

section \<open>A codec for concrete examples\<close>

text \<open>
  Serializer and deserializer for closed examples: total on messages, and faithful on the ones
  the protocol itself starts with or answers. It has one heartbeat.
\<close>

definition ping_frame :: bytes where "ping_frame = [0, 0]"
definition pong_frame :: bytes where "pong_frame = [0, 1]"
definition hello_frame :: bytes where "hello_frame = [1, 0]"
definition oleh_frame :: bytes where "oleh_frame = [1, 1]"

fun sample_ser :: "Message \<Rightarrow> bytes option" where
  "sample_ser (Ping m) = Some (if ping_message m = ''ping'' then ping_frame else pong_frame)"
| "sample_ser (Handshake m) = Some (if message m = ''helo'' then hello_frame else oleh_frame)"
| "sample_ser (Heartbeat m) = Some [2, 0]"

definition sample_de :: "bytes \<Rightarrow> string + Message" where
  "sample_de b =
     (if b = ping_frame then Inr (Ping \<lparr>ping_message = ''ping''\<rparr>)
      else if b = pong_frame then Inr (Ping \<lparr>ping_message = ''pong''\<rparr>)
      else if b = hello_frame then Inr (Handshake \<lparr>message = ''helo'', version = ''0.1.0''\<rparr>)
      else if b = oleh_frame then Inr (Handshake \<lparr>message = ''oleh'', version = ''0.1.0''\<rparr>)
      else if b = [2, 0] then Inr (Heartbeat \<lparr>from_addr = ''127.0.0.1:6680'', time = 0\<rparr>)
      else Inl ''flexbuffers error'')"

lemmas sample_codec_defs =
  ping_frame_def pong_frame_def hello_frame_def oleh_frame_def sample_de_def

lemma sample_ser_total: "sample_ser msg \<noteq> None"
  by (cases msg) simp_all

section \<open>Properties\<close>

text \<open>
  C30. Every exchange of the protocol is over after at most one answer: whatever message is
  delivered, at most one message follows it, and that one is answered by silence. Two nodes
  running this code never send each other messages for ever.
\<close>

theorem exchange_ends_after_one_answer:
  "length (dialogue msg) \<le> 1 \<and>
   list_all (\<lambda>r. response_for_received r = Ok None) (dialogue msg)"
proof (cases "response_for_received msg")
  case (Ok result)
  then show ?thesis
    by (cases result) (auto simp: dialogue_silent dialogue_answer response_then_silence
        simp del: response_for_received.simps)
next
  case (Err e)
  then show ?thesis by (subst (1 2) dialogue.simps) simp
qed (simp del: response_for_received.simps)

text \<open>
  The only messages the protocol rejects are handshakes that are neither the greeting nor
  its answer at version 0.1.0; everything else is answered or accepted in silence.
\<close>

theorem only_foreign_handshakes_rejected:
  "is_err (response_for_received msg) \<longleftrightarrow>
     (\<exists>h. msg = Handshake h \<and>
        (version h \<noteq> ''0.1.0'' \<or> message h \<notin> {''helo'', ''oleh''}))"
  by (cases msg) (auto simp: response_defs)

end
