(* ===== verification/Channel.thy ===== *)
theory Channel
  imports Prelude
begin

text \<open>
  The bounded channel between a connection's read loop and its message handler. The channel
  is tokio's \<open>mpsc\<close>, which is not part of the repository: the connection code takes its
  operations as parameters, and the locale \<open>mpsc_channel\<close> states the documented behaviour the
  code relies on, over three observations (the buffered messages, whether the receiver has
  closed, the capacity). A bounded queue interprets it, so the laws are consistent and the
  closed examples compute.
\<close>

section \<open>Interface\<close>

datatype TrySendError = Full bytes | Closed bytes

text \<open>One poll of \<open>recv\<close>: not ready, or ready with a message, or ready with the end.\<close>

datatype recv_poll = Waiting | Ready "bytes option"

locale mpsc_channel =
  fixes try_send :: "'ch \<Rightarrow> bytes \<Rightarrow> (TrySendError + unit) \<times> 'ch"
    and recv :: "'ch \<Rightarrow> recv_poll \<times> 'ch"
    and close :: "'ch \<Rightarrow> 'ch"
    and buffered :: "'ch \<Rightarrow> bytes list"
    and is_closed :: "'ch \<Rightarrow> bool"
    and limit :: "'ch \<Rightarrow> nat"
  assumes try_send_closed: "is_closed ch \<Longrightarrow> try_send ch msg = (Inl (Closed msg), ch)"
    and try_send_full:
      "\<not> is_closed ch \<Longrightarrow> limit ch \<le> length (buffered ch) \<Longrightarrow>
       try_send ch msg = (Inl (Full msg), ch)"
    and try_send_room:
      "\<not> is_closed ch \<Longrightarrow> length (buffered ch) < limit ch \<Longrightarrow>
       \<exists>ch'. try_send ch msg = (Inr (), ch') \<and> buffered ch' = buffered ch @ [msg] \<and>
             \<not> is_closed ch' \<and> limit ch' = limit ch"
    and recv_message:
      "buffered ch = msg # rest \<Longrightarrow>
       \<exists>ch'. recv ch = (Ready (Some msg), ch') \<and> buffered ch' = rest \<and>
             is_closed ch' = is_closed ch \<and> limit ch' = limit ch"
    and recv_waiting: "buffered ch = [] \<Longrightarrow> \<not> is_closed ch \<Longrightarrow> recv ch = (Waiting, ch)"
    and recv_end: "buffered ch = [] \<Longrightarrow> is_closed ch \<Longrightarrow> recv ch = (Ready None, ch)"
    and close_closes: "is_closed (close ch)"
    and close_keeps: "buffered (close ch) = buffered ch \<and> limit (close ch) = limit ch"
begin

lemma try_send_cases [consumes 1, case_names closed full sent]:
  assumes "try_send ch msg = (r, ch')"
  obtains "r = Inl (Closed msg)" "ch' = ch" "is_closed ch"
    | "r = Inl (Full msg)" "ch' = ch" "\<not> is_closed ch" "limit ch \<le> length (buffered ch)"
    | "r = Inr ()" "buffered ch' = buffered ch @ [msg]" "\<not> is_closed ch" "\<not> is_closed ch'"
      "limit ch' = limit ch" "length (buffered ch) < limit ch"
  using assms try_send_closed [of ch msg] try_send_full [of ch msg] try_send_room [of ch msg]
  by (metis not_less prod.inject)

lemma recv_cases [consumes 1, case_names message waiting finished]:
  assumes "recv ch = (r, ch')"
  obtains msg where "r = Ready (Some msg)" "buffered ch = msg # buffered ch'"
      "is_closed ch' = is_closed ch" "limit ch' = limit ch"
    | "r = Waiting" "ch' = ch" "buffered ch = []" "\<not> is_closed ch"
    | "r = Ready None" "ch' = ch" "buffered ch = []" "is_closed ch"
proof (cases "buffered ch")
  case Nil
  with assms that(2,3) show ?thesis
    by (cases "is_closed ch") (auto simp: recv_waiting recv_end)
next
  case (Cons msg rest)
  with assms that(1) show ?thesis using recv_message [OF Cons] by auto
qed

text \<open>While the receiver is open, \<open>recv\<close> never reports the end.\<close>

lemma recv_open_not_end: "recv ch = (Ready None, ch') \<Longrightarrow> is_closed ch"
  by (erule recv_cases) auto

end

text \<open>
  The channel as \<open>start_connection\<close> obtains it: \<open>mpsc::channel(buffer)\<close> panics on a capacity of
  zero (or one too large); what it returns is open and empty, with that capacity.
\<close>

locale mpsc = mpsc_channel try_send recv close buffered is_closed limit
  for try_send :: "'ch \<Rightarrow> bytes \<Rightarrow> (TrySendError + unit) \<times> 'ch"
    and recv :: "'ch \<Rightarrow> recv_poll \<times> 'ch"
    and close :: "'ch \<Rightarrow> 'ch"
    and buffered :: "'ch \<Rightarrow> bytes list"
    and is_closed :: "'ch \<Rightarrow> bool"
    and limit :: "'ch \<Rightarrow> nat" +
  fixes create :: "usize \<Rightarrow> ('ch, unit) outcome"
  assumes create_zero: "panics (create 0)"
    and create_no_err: "create n \<noteq> Err e"
    and create_fresh:
      "create n = Ok ch \<Longrightarrow> buffered ch = [] \<and> \<not> is_closed ch \<and> limit ch = unat n"
begin

lemma create_cases [consumes 1, case_names created failed]:
  assumes "create n = r"
  obtains ch where "r = Ok ch" "n \<noteq> 0" "buffered ch = []" "\<not> is_closed ch" "limit ch = unat n"
    | p where "r = Panic p"
  using assms create_zero create_no_err create_fresh that
  by (cases r) (force, metis, metis)

end

section \<open>A bounded queue\<close>

record queue =
  items :: "bytes list"
  size_limit :: nat
  shut :: bool

definition queue_new :: "nat \<Rightarrow> queue" where
  "queue_new n = \<lparr>items = [], size_limit = n, shut = False\<rparr>"

definition queue_try_send :: "queue \<Rightarrow> bytes \<Rightarrow> (TrySendError + unit) \<times> queue" where
  "queue_try_send q msg =
     (if shut q then (Inl (Closed msg), q)
      else if size_limit q \<le> length (items q) then (Inl (Full msg), q)
      else (Inr (), q\<lparr>items := items q @ [msg]\<rparr>))"

definition queue_recv :: "queue \<Rightarrow> recv_poll \<times> queue" where
  "queue_recv q =
     (case items q of
        msg # rest \<Rightarrow> (Ready (Some msg), q\<lparr>items := rest\<rparr>)
      | [] \<Rightarrow> (if shut q then Ready None else Waiting, q))"

definition queue_close :: "queue \<Rightarrow> queue" where
  "queue_close q = q\<lparr>shut := True\<rparr>"

text \<open>The largest capacity is tokio's \<open>Semaphore::MAX_PERMITS\<close>.\<close>

definition queue_create :: "usize \<Rightarrow> (queue, unit) outcome" where
  "queue_create n =
     (if n = 0 \<or> 2 ^ 61 - 1 < unat n then Panic ''mpsc bounded channel requires buffer > 0''
      else Ok (queue_new (unat n)))"

lemmas queue_defs = queue_new_def queue_try_send_def queue_recv_def queue_close_def

interpretation queue: mpsc_channel queue_try_send queue_recv queue_close items shut size_limit
  by unfold_locales (auto simp: queue_defs)

interpretation queue: mpsc queue_try_send queue_recv queue_close items shut size_limit queue_create
  by unfold_locales (auto simp: queue_create_def queue_new_def split: if_splits)

end
