(* ===== verification/Connection.thy ===== *)
theory Connection
  imports Protocol Channel
begin

text \<open>
  The two loops of a connection (node/connection/src/lib.rs): \<open>start_read_loop\<close>, which moves
  messages from the TCP stream into the bounded channel, and \<open>start_message_handler\<close>, which
  answers them and forwards broadcasts. The stream gives \<open>Some (Inr msg)\<close>, \<open>Some (Inl e)\<close> or
  \<open>None\<close> (closed); the channel is the parameter \<open>try_send\<close>; the writer is a state \<open>'w\<close> with
  the operation \<open>send\<close>, which says whether it succeeded; \<open>ser\<close> and \<open>de\<close> are the flexbuffers
  codec. Each loop is given by one iteration and the loop around it.
\<close>

section \<open>The read loop\<close>

text \<open>What a loop body does: go round again, or return from the function (or panic).\<close>

datatype flow = Continue | Return "(unit, string) outcome"

definition read_iteration ::
    "('ch \<Rightarrow> bytes \<Rightarrow> (TrySendError + unit) \<times> 'ch) \<Rightarrow> ('io + bytes) option \<Rightarrow> 'ch \<Rightarrow> flow \<times> 'ch" where
  "read_iteration try_send next ch =
     (case next of
        Some item \<Rightarrow> (case item of
          Inr frame \<Rightarrow> (case try_send ch frame of
            (Inr _, ch') \<Rightarrow> (Continue, ch')
          | (Inl error, ch') \<Rightarrow> (case error of
              Full _ \<Rightarrow> (Return (Err ''Sender flooding channel''), ch')
            | Closed _ \<Rightarrow> (Return (Err ''Receiver closed for channel''), ch')))
        | Inl _ \<Rightarrow> (Return (Err ''Message receive: peer closed connection''), ch))
      | None \<Rightarrow> (Return (Err ''Receive: peer closed connection''), ch))"

text \<open>\<open>reader.next()\<close> on a stream of finitely many items: then \<open>None\<close> for ever.\<close>

fun next_item :: "'a list \<Rightarrow> 'a option \<times> 'a list" where
  "next_item [] = (None, [])"
| "next_item (x # xs) = (Some x, xs)"

lemma read_iteration_end [simp]:
  "read_iteration try_send None ch = (Return (Err ''Receive: peer closed connection''), ch)"
  by (simp add: read_iteration_def)

function start_read_loop ::
    "('ch \<Rightarrow> bytes \<Rightarrow> (TrySendError + unit) \<times> 'ch) \<Rightarrow> ('io + bytes) list \<Rightarrow> 'ch
     \<Rightarrow> (unit, string) outcome \<times> 'ch" where
  "start_read_loop try_send reader ch =
     (case next_item reader of (next, reader') \<Rightarrow>
        (case read_iteration try_send next ch of
           (Continue, ch') \<Rightarrow> start_read_loop try_send reader' ch'
         | (Return r, ch') \<Rightarrow> (r, ch')))"
  by pat_completeness auto
termination
proof (relation "measure (\<lambda>(ts, reader, ch). length reader)", goal_cases)
  case (2 ts reader)
  then show ?case by (cases reader) auto
qed simp

declare start_read_loop.simps [simp del]

lemma start_read_loop_Nil [simp]:
  "start_read_loop try_send [] ch = (Err ''Receive: peer closed connection'', ch)"
  by (subst start_read_loop.simps) simp

lemma start_read_loop_error [simp]:
  "start_read_loop try_send (Inl e # reader) ch = (Err ''Message receive: peer closed connection'', ch)"
  by (subst start_read_loop.simps) (simp add: read_iteration_def)

lemma start_read_loop_message:
  "start_read_loop try_send (Inr msg # reader) ch =
     (case try_send ch msg of
        (Inr _, ch') \<Rightarrow> start_read_loop try_send reader ch'
      | (Inl (Full _), ch') \<Rightarrow> (Err ''Sender flooding channel'', ch')
      | (Inl (Closed _), ch') \<Rightarrow> (Err ''Receiver closed for channel'', ch'))"
  by (subst start_read_loop.simps)
    (simp add: read_iteration_def split: prod.split sum.split TrySendError.split)

section \<open>Handling a message\<close>

definition handle_received ::
    "(Message \<Rightarrow> bytes option) \<Rightarrow> (bytes \<Rightarrow> 'e + Message) \<Rightarrow> ('w \<Rightarrow> bytes \<Rightarrow> bool \<times> 'w)
     \<Rightarrow> 'w \<Rightarrow> bytes \<Rightarrow> (unit, string) outcome \<times> 'w" where
  "handle_received ser de send writer msg =
     (case from_bytes de msg of
        Ok parsed \<Rightarrow> (case response_for_received parsed of
          Ok result \<Rightarrow> (case result of
            Some response \<Rightarrow> (case as_bytes ser response of
              Ok (Some to_send) \<Rightarrow> (case send writer to_send of
                (True, writer') \<Rightarrow> (Ok (), writer')
              | (False, writer') \<Rightarrow> (Err ''Send failed: Closing peer connection'', writer'))
            | Ok None \<Rightarrow> (Err ''Error serializing: Closing peer connection'', writer)
            | Err e \<Rightarrow> (Err e, writer)
            | Panic p \<Rightarrow> (Panic p, writer))
          | None \<Rightarrow> (Ok (), writer))
        | Err _ \<Rightarrow> (Err ''Error constructing response: Closing peer connection'', writer)
        | Panic p \<Rightarrow> (Panic p, writer))
      | Err _ \<Rightarrow> (Err ''Error parsing message'', writer)
      | Panic p \<Rightarrow> (Panic p, writer))"

text \<open>
  One round of the handler's \<open>select!\<close>: a message came out of the channel, a broadcast
  arrived, or both futures completed without matching their patterns (the channel at its end,
  the broadcast with an error), on which the macro, having no \<open>else\<close>, panics. After a handled
  message the code calls \<open>notifier.notified()\<close> and drops the future it returns, which has no
  effect on the state.
\<close>

datatype selected = FromChannel bytes | FromBroadcast bytes | AllDisabled

abbreviation no_else_branch :: string where
  "no_else_branch \<equiv> ''all branches are disabled and there is no else branch''"

definition handler_iteration ::
    "(Message \<Rightarrow> bytes option) \<Rightarrow> (bytes \<Rightarrow> 'e + Message) \<Rightarrow> ('w \<Rightarrow> bytes \<Rightarrow> bool \<times> 'w)
     \<Rightarrow> selected \<Rightarrow> 'w \<Rightarrow> flow \<times> 'w" where
  "handler_iteration ser de send sel writer =
     (case sel of
        FromChannel msg \<Rightarrow> (case handle_received ser de send writer msg of
          (Ok _, writer') \<Rightarrow> (Continue, writer')
        | (Err _, writer') \<Rightarrow>
            (Return (Err ''Message handling failure: Closing peer connection''), writer')
        | (Panic p, writer') \<Rightarrow> (Return (Panic p), writer'))
      | FromBroadcast msg_bytes \<Rightarrow> (case send writer msg_bytes of
          (True, writer') \<Rightarrow> (Continue, writer')
        | (False, writer') \<Rightarrow> (Return (Err ''Send failed: Closing peer connection''), writer'))
      | AllDisabled \<Rightarrow> (Return (Panic no_else_branch), writer))"

text \<open>
  The loop, driven by the rounds its \<open>select!\<close> goes through. \<open>Continue\<close> as a result: it is
  still waiting after those rounds.
\<close>

fun start_message_handler ::
    "(Message \<Rightarrow> bytes option) \<Rightarrow> (bytes \<Rightarrow> 'e + Message) \<Rightarrow> ('w \<Rightarrow> bytes \<Rightarrow> bool \<times> 'w)
     \<Rightarrow> selected list \<Rightarrow> 'w \<Rightarrow> flow \<times> 'w" where
  "start_message_handler ser de send [] writer = (Continue, writer)"
| "start_message_handler ser de send (sel # sels) writer =
     (case handler_iteration ser de send sel writer of
        (Continue, writer') \<Rightarrow> start_message_handler ser de send sels writer'
      | (Return r, writer') \<Rightarrow> (Return r, writer'))"

section \<open>The read loop on a channel\<close>

text \<open>The messages the reader delivers before it errors or ends, and whether it errors.\<close>

definition delivered :: "('io + bytes) list \<Rightarrow> bytes list" where
  "delivered reader = map projr (takeWhile (\<lambda>i. \<not> isl i) reader)"

definition breaks :: "('io + bytes) list \<Rightarrow> bool" where
  "breaks reader \<longleftrightarrow> (\<exists>i \<in> set reader. isl i)"

lemma delivered_simps [simp]:
  "delivered [] = []"
  "delivered (Inl e # reader) = []"
  "delivered (Inr m # reader) = m # delivered reader"
  by (simp_all add: delivered_def)

lemma breaks_simps [simp]:
  "\<not> breaks []"
  "breaks (Inl e # reader)"
  "breaks (Inr m # reader) \<longleftrightarrow> breaks reader"
  by (simp_all add: breaks_def)

context mpsc_channel
begin

text \<open>With no consumer, the loop buffers what fits and then reports flooding.\<close>

lemma read_loop_open:
  assumes "\<not> is_closed ch" and "length (buffered ch) \<le> limit ch"
    and "start_read_loop try_send reader ch = (r, ch')"
  shows "buffered ch' = buffered ch @ take (limit ch - length (buffered ch)) (delivered reader) \<and>
    r = Err (if limit ch < length (buffered ch) + length (delivered reader)
             then ''Sender flooding channel''
             else if breaks reader then ''Message receive: peer closed connection''
             else ''Receive: peer closed connection'')"
  using assms
proof (induction reader arbitrary: ch)
  case (Cons i reader)
  show ?case
  proof (cases i)
    case (Inl e)
    with Cons.prems show ?thesis by simp
  next
    case (Inr m)
    obtain s ch2 where send: "try_send ch m = (s, ch2)" by (cases "try_send ch m")
    then show ?thesis
    proof (cases rule: try_send_cases)
      case closed
      with Cons.prems show ?thesis by simp
    next
      case full
      with Cons.prems Inr send show ?thesis by (simp add: start_read_loop_message)
    next
      case sent
      with Cons.prems(3) Inr send have "start_read_loop try_send reader ch2 = (r, ch')"
        by (simp add: start_read_loop_message)
      from Cons.IH [OF _ _ this] sent show ?thesis
        by (simp add: Inr Suc_diff_Suc [symmetric] take_Cons')
    qed
  qed
qed simp

lemma read_loop_closed:
  assumes "is_closed ch" and "delivered reader = m # ms"
  shows "start_read_loop try_send reader ch = (Err ''Receiver closed for channel'', ch)"
proof -
  from assms(2) obtain reader' where "reader = Inr m # reader'"
    by (cases reader rule: list.exhaust; cases "hd reader") auto
  with assms(1) show ?thesis by (simp add: start_read_loop_message try_send_closed)
qed

end

lemma read_loop_returns_err:
  "\<exists>msg. fst (start_read_loop try_send reader ch) = Err msg"
proof (induction reader arbitrary: ch)
  case (Cons i reader)
  then show ?case
    by (cases i) (auto simp: start_read_loop_message split: prod.split sum.split TrySendError.split)
qed auto

section \<open>What handling a message can do\<close>

lemma handle_received_cases [consumes 1, case_names unparsed rejected silent unserialized sent failed]:
  assumes "handle_received ser de send w msg = (r, w')"
  obtains e where "de msg = Inl e" "r = Err ''Error parsing message''" "w' = w"
    | m e where "de msg = Inr m" "response_for_received m = Err e"
        "r = Err ''Error constructing response: Closing peer connection''" "w' = w"
    | m where "de msg = Inr m" "response_for_received m = Ok None" "r = Ok ()" "w' = w"
    | m reply p where "de msg = Inr m" "response_for_received m = Ok (Some reply)"
        "ser reply = None" "r = Panic p" "w' = w"
    | m reply b where "de msg = Inr m" "response_for_received m = Ok (Some reply)"
        "ser reply = Some b" "send w b = (True, w')" "r = Ok ()"
    | m reply b where "de msg = Inr m" "response_for_received m = Ok (Some reply)"
        "ser reply = Some b" "send w b = (False, w')"
        "r = Err ''Send failed: Closing peer connection''"
proof (cases "de msg")
  case (Inl e)
  with assms that(1) show ?thesis by (simp add: handle_received_def from_bytes_def)
next
  case (Inr m)
  note parsed = this
  show ?thesis
  proof (cases "response_for_received m")
    case (Err e)
    with parsed assms that(2) show ?thesis by (simp add: handle_received_def from_bytes_def)
  next
    case (Panic p)
    then show ?thesis by simp
  next
    case (Ok result)
    show ?thesis
    proof (cases result)
      case None
      with parsed Ok assms that(3) show ?thesis by (simp add: handle_received_def from_bytes_def)
    next
      case (Some reply)
      show ?thesis
        using parsed Ok Some assms that(4,5,6)
        by (cases "ser reply")
          (auto simp: handle_received_def from_bytes_def as_bytes_def
            split: prod.splits bool.splits)
    qed
  qed
qed

lemma handler_iteration_channel:
  "handler_iteration ser de send (FromChannel msg) w =
     (case handle_received ser de send w msg of
        (Ok _, w') \<Rightarrow> (Continue, w')
      | (Err _, w') \<Rightarrow> (Return (Err ''Message handling failure: Closing peer connection''), w')
      | (Panic p, w') \<Rightarrow> (Return (Panic p), w'))"
  by (simp add: handler_iteration_def)

lemma handler_iteration_broadcast:
  "handler_iteration ser de send (FromBroadcast b) w =
     (case send w b of
        (True, w') \<Rightarrow> (Continue, w')
      | (False, w') \<Rightarrow> (Return (Err ''Send failed: Closing peer connection''), w'))"
  by (simp add: handler_iteration_def)

text \<open>A writer that records the frames it accepts; \<open>ok\<close> says whether this send succeeds.\<close>

definition record_send :: "bool \<Rightarrow> bytes list \<Rightarrow> bytes \<Rightarrow> bool \<times> bytes list" where
  "record_send ok w b = (ok, if ok then w @ [b] else w)"

text \<open>What a round adds to what the peer receives, when it goes well.\<close>

fun round_output ::
    "(Message \<Rightarrow> bytes option) \<Rightarrow> (bytes \<Rightarrow> 'e + Message) \<Rightarrow> selected \<Rightarrow> bytes list option" where
  "round_output ser de (FromChannel msg) =
     (case de msg of
        Inr m \<Rightarrow> (case response_for_received m of
          Ok None \<Rightarrow> Some []
        | Ok (Some reply) \<Rightarrow> map_option (\<lambda>b. [b]) (ser reply)
        | _ \<Rightarrow> None)
      | Inl _ \<Rightarrow> None)"
| "round_output ser de (FromBroadcast b) = Some [b]"
| "round_output ser de AllDisabled = None"

lemma handler_iteration_good:
  "round_output ser de sel = Some out \<Longrightarrow>
   handler_iteration ser de (record_send True) sel w = (Continue, w @ out)"
  by (cases sel)
    (auto simp: handler_iteration_def handle_received_def from_bytes_def as_bytes_def record_send_def
      split: sum.splits outcome.splits option.splits)

lemma handler_iteration_bad:
  "round_output ser de sel = None \<Longrightarrow>
   \<exists>r. handler_iteration ser de send sel w = (Return r, w)"
  by (cases sel)
    (auto simp: handler_iteration_def handle_received_def from_bytes_def as_bytes_def
      split: sum.splits outcome.splits option.splits)

section \<open>Properties\<close>

text \<open>
  C38. With the channel open and nothing consumed meanwhile, the read loop keeps exactly the
  messages that fit in the channel, in the order the peer sent them, and returns the flooding
  error exactly when the peer sent more than fit; otherwise it reports the stream's error or
  its end.
\<close>

theorem read_loop_bounded_buffering:
  assumes "mpsc_channel try_send recv close buffered is_closed limit"
    and "\<not> is_closed ch" and "length (buffered ch) \<le> limit ch"
  shows "buffered (snd (start_read_loop try_send reader ch)) =
      buffered ch @ take (limit ch - length (buffered ch)) (delivered reader) \<and>
    fst (start_read_loop try_send reader ch) = Err
      (if limit ch < length (buffered ch) + length (delivered reader)
       then ''Sender flooding channel''
       else if breaks reader then ''Message receive: peer closed connection''
       else ''Receive: peer closed connection'')"
  using mpsc_channel.read_loop_open [OF assms prod.collapse [symmetric]] by blast

lemma read_loop_bounded_buffering_witness:
  "fst (start_read_loop queue_try_send [Inr [1], Inr [2] :: unit + bytes] (queue_new 1)) =
     Err ''Sender flooding channel'' \<and>
   items (snd (start_read_loop queue_try_send [Inr [1], Inr [2] :: unit + bytes] (queue_new 1))) = [[1]]"
  using read_loop_bounded_buffering [OF queue.mpsc_channel_axioms, of "queue_new 1"
      "[Inr [1], Inr [2] :: unit + bytes]"]
  by (simp add: queue_new_def)

text \<open>
  The read loop never returns normally and never panics: on every finite stream and every
  channel it ends with an error, which is what ends the connection.
\<close>

theorem read_loop_ends_with_error:
  "is_err (fst (start_read_loop try_send reader ch))"
  using read_loop_returns_err [of try_send reader ch] by auto

text \<open>
  Handling one received message sends at most one frame, and only the serialized answer
  the protocol prescribes to the parsed message; when parsing fails or the protocol rejects
  the message, nothing is sent and an error is returned.
\<close>

theorem handle_received_sends_only_the_answer:
  "case handle_received ser de (record_send ok) w msg of (r, w') \<Rightarrow>
     (\<exists>m reply b. de msg = Inr m \<and> response_for_received m = Ok (Some reply) \<and>
        ser reply = Some b \<and> ok \<and> r = Ok () \<and> w' = w @ [b]) \<or>
     (\<exists>m. de msg = Inr m \<and> response_for_received m = Ok None \<and> r = Ok () \<and> w' = w) \<or>
     \<not> is_ok r \<and> w' = w"
proof (cases "handle_received ser de (record_send ok) w msg")
  case (Pair r w')
  then have "(\<exists>m reply b. de msg = Inr m \<and> response_for_received m = Ok (Some reply) \<and>
        ser reply = Some b \<and> ok \<and> r = Ok () \<and> w' = w @ [b]) \<or>
     (\<exists>m. de msg = Inr m \<and> response_for_received m = Ok None \<and> r = Ok () \<and> w' = w) \<or>
     \<not> is_ok r \<and> w' = w"
    by (cases rule: handle_received_cases) (auto simp: record_send_def)
  then show ?thesis by (simp only: Pair prod.case)
qed

text \<open>
  The handler panics on a message only if the serializer fails on the answer; in
  particular no message a peer can send makes it panic when the serializer is total.
\<close>

theorem handle_received_panics_iff:
  "panics (fst (handle_received ser de send w msg)) =
   (\<exists>m reply. de msg = Inr m \<and> response_for_received m = Ok (Some reply) \<and> ser reply = None)"
proof (cases "handle_received ser de send w msg")
  case (Pair r w')
  then show ?thesis by (cases rule: handle_received_cases) (auto simp: Pair)
qed

text \<open>
  Over any sequence of rounds in which every message parses and is acceptable and every
  send succeeds, the handler is still running, and the peer has received the answers and the
  broadcasts in the order of the rounds, nothing lost and nothing added.
\<close>

theorem handler_output_in_order:
  assumes "map (round_output ser de) sels = map Some outs"
  shows "start_message_handler ser de (record_send True) sels w = (Continue, w @ concat outs)"
  using assms
proof (induction sels arbitrary: outs w)
  case (Cons sel sels)
  then obtain out outs' where "outs = out # outs'" and "round_output ser de sel = Some out"
    and "map (round_output ser de) sels = map Some outs'"
    by (cases outs) auto
  then show ?case by (simp add: handler_iteration_good Cons.IH)
qed simp

lemma handler_output_in_order_witness:
  "start_message_handler (\<lambda>m. Some [7])
     (\<lambda>b. if b = [1] then Inr (Ping \<lparr>ping_message = ''ping''\<rparr>) else Inl ())
     (record_send True) [FromChannel [1], FromBroadcast [9]] [] = (Continue, [[7], [9]])"
  using handler_output_in_order [of "\<lambda>m. Some [7]"
      "\<lambda>b. if b = [1] then Inr (Ping \<lparr>ping_message = ''ping''\<rparr>) else Inl ()"
      "[FromChannel [1], FromBroadcast [9]]" "[[[7]], [[9]]]" "[]"]
  by (simp add: ping_response_for_received_def)



text \<open>
  Two nodes complete the handshake: the frame a node sends first is taken by a peer running
  the same code, which answers with one frame; the node that started takes that answer and
  sends nothing more. Neither side closes the connection. Of the codec only this is needed:
  that it reads back those two frames.
\<close>

theorem handshake_completes:
  assumes "handshake_start addr = Some greeting" and "ser greeting = Some hello" and "de hello = Inr greeting"
    and answer: "response_for_received greeting = Ok (Some reply)"
    and "ser reply = Some oleh" and "de oleh = Inr reply"
  shows "as_bytes ser greeting = Ok (Some hello) \<and>
    handler_iteration ser de (record_send True) (FromChannel hello) w = (Continue, w @ [oleh]) \<and>
    handler_iteration ser de (record_send True) (FromChannel oleh) w' = (Continue, w')"
proof -
  have silent: "response_for_received reply = Ok None"
    by (rule response_then_silence [OF answer])
  have "round_output ser de (FromChannel hello) = Some [oleh]"
    using assms by simp
  moreover have "round_output ser de (FromChannel oleh) = Some []"
    using assms silent by simp
  ultimately show ?thesis
    using assms(2) handler_iteration_good [of ser de] by (simp add: as_bytes_def)
qed

lemma handshake_completes_witness:
  "handler_iteration sample_ser sample_de (record_send True) (FromChannel hello_frame) [] =
     (Continue, [oleh_frame]) \<and>
   handler_iteration sample_ser sample_de (record_send True) (FromChannel oleh_frame) [] = (Continue, [])"
proof -
  have "handler_iteration sample_ser sample_de (record_send True) (FromChannel hello_frame) [] =
      (Continue, [] @ [oleh_frame]) \<and>
    handler_iteration sample_ser sample_de (record_send True) (FromChannel oleh_frame) [] = (Continue, [])"
    by (rule conjunct2, rule handshake_completes [where addr = "V4 127 0 0 1 8080"
          and greeting = "Handshake \<lparr>message = ''helo'', version = ''0.1.0''\<rparr>"
          and reply = "Handshake \<lparr>message = ''oleh'', version = ''0.1.0''\<rparr>"])
      (simp_all add: handshake_start_def handshake_response_for_received_def sample_codec_defs)
  then show ?thesis by simp
qed

end
