(* ===== verification/Manager.thy ===== *)
theory Manager
  imports Prelude Printing "HOL-Library.AList"
begin

text \<open>
  node/connection/src/connection_manager.rs: the table of connections shared by all tasks.
  The \<open>HashMap\<close> behind the mutex is an association list with distinct keys, and each
  method is one atomic step on it, because it holds the lock from its first line to its
  last. The locale \<open>connection_table\<close> is the contract the rest of the node uses; the
  model of \<open>ConnectionManager\<close> interprets it. An abstract specification (a capacity and a
  finite map) is refined by every sequence of calls.
\<close>

section \<open>The table\<close>

record Metadata =
  created_at :: SystemTime

type_synonym Map = "(SocketAddr \<times> Metadata) list"

record ConnectionManager =
  capacity :: usize
  shared_state :: Map

text \<open>\<open>HashMap::len\<close>, as the \<open>usize\<close> it returns.\<close>

definition map_len :: "Map \<Rightarrow> usize" where
  "map_len m = word_of_nat (length m)"

definition manager_new :: "usize \<Rightarrow> ConnectionManager" where
  "manager_new cap = \<lparr>capacity = cap, shared_state = []\<rparr>"

definition manager_insert ::
    "ConnectionManager \<Rightarrow> SocketAddr \<Rightarrow> Metadata
     \<Rightarrow> (Metadata option, string) outcome \<times> ConnectionManager" where
  "manager_insert self addr s =
     (let state = shared_state self in
      if map_len state \<ge> capacity self
      then (Err ''Connection limit reached'', self)
      else (Ok (map_of state addr), self\<lparr>shared_state := AList.update addr s state\<rparr>))"

definition manager_remove ::
    "ConnectionManager \<Rightarrow> SocketAddr \<Rightarrow> Metadata option \<times> ConnectionManager" where
  "manager_remove self addr =
     (let state = shared_state self in
      (map_of state addr, self\<lparr>shared_state := AList.delete addr state\<rparr>))"

definition manager_get :: "ConnectionManager \<Rightarrow> SocketAddr \<Rightarrow> Metadata option" where
  "manager_get self addr = map_of (shared_state self) addr"

definition num_connections :: "ConnectionManager \<Rightarrow> usize" where
  "num_connections self = map_len (shared_state self)"

lemmas manager_defs =
  manager_new_def manager_insert_def manager_remove_def manager_get_def num_connections_def

text \<open>The invariant: one entry per address, and no more entries than the capacity.\<close>

definition manager_wf :: "ConnectionManager \<Rightarrow> bool" where
  "manager_wf self \<longleftrightarrow>
     distinct (map fst (shared_state self)) \<and> length (shared_state self) \<le> unat (capacity self)"

section \<open>The contract\<close>

locale connection_table =
  fixes ins :: "'t \<Rightarrow> SocketAddr \<Rightarrow> Metadata \<Rightarrow> (Metadata option, string) outcome \<times> 't"
    and rem :: "'t \<Rightarrow> SocketAddr \<Rightarrow> Metadata option \<times> 't"
    and look :: "'t \<Rightarrow> SocketAddr \<Rightarrow> Metadata option"
    and num :: "'t \<Rightarrow> usize"
    and limit :: "'t \<Rightarrow> usize"
    and invar :: "'t \<Rightarrow> bool"
  assumes dom_finite: "invar t \<Longrightarrow> finite (dom (look t))"
    and num_card: "invar t \<Longrightarrow> unat (num t) = card (dom (look t))"
    and num_limit: "invar t \<Longrightarrow> num t \<le> limit t"
    and ins_full: "invar t \<Longrightarrow> limit t \<le> num t \<Longrightarrow> ins t a md = (Err ''Connection limit reached'', t)"
    and ins_room: "invar t \<Longrightarrow> num t < limit t \<Longrightarrow>
      \<exists>t'. ins t a md = (Ok (look t a), t') \<and> invar t' \<and> limit t' = limit t \<and>
           look t' = (look t)(a \<mapsto> md)"
    and rem_entry: "invar t \<Longrightarrow>
      \<exists>t'. rem t a = (look t a, t') \<and> invar t' \<and> limit t' = limit t \<and>
           look t' = (look t)(a := None)"
begin

lemma ins_cases [consumes 2, case_names full room]:
  assumes "ins t a md = (r, t')" and "invar t"
  obtains "r = Err ''Connection limit reached''" "t' = t" "unat (limit t) = card (dom (look t))"
    | "r = Ok (look t a)" "invar t'" "limit t' = limit t" "look t' = (look t)(a \<mapsto> md)"
      "card (dom (look t)) < unat (limit t)"
proof (cases "limit t \<le> num t")
  case True
  with assms(2) num_limit have "limit t = num t" by (simp add: order.antisym)
  with True assms that(1) show ?thesis by (simp add: ins_full num_card)
next
  case False
  then have "num t < limit t" by simp
  moreover from this assms(2) have "card (dom (look t)) < unat (limit t)"
    by (simp add: word_less_nat_alt flip: num_card)
  ultimately show ?thesis
    using assms ins_room [OF assms(2), of a md] that(2) by auto
qed

lemma rem_cases [consumes 2]:
  assumes "rem t a = (r, t')" and "invar t"
  obtains "r = look t a" "invar t'" "limit t' = limit t" "look t' = (look t)(a := None)"
  using assms rem_entry [OF assms(2), of a] by auto

lemma invar_ins: "invar t \<Longrightarrow> invar (snd (ins t a md))"
  by (cases "ins t a md") (auto elim: ins_cases)

lemma invar_rem: "invar t \<Longrightarrow> invar (snd (rem t a))"
  by (cases "rem t a") (auto elim: rem_cases)

lemma limit_ins: "invar t \<Longrightarrow> limit (snd (ins t a md)) = limit t"
  by (cases "ins t a md") (auto elim: ins_cases)

lemma limit_rem: "invar t \<Longrightarrow> limit (snd (rem t a)) = limit t"
  by (cases "rem t a") (auto elim: rem_cases)

text \<open>A session that registers a new address and leaves restores what others registered.\<close>

lemma session_restores:
  assumes "invar t" and "look t a = None" and "ins t a md = (Ok old, t')"
  shows "look (snd (rem t' a)) = look t \<and> old = None"
  using assms(3,1)
proof (cases rule: ins_cases)
  case room
  then show ?thesis
    using assms(2,3) by (cases "rem t' a") (auto elim!: rem_cases simp: fun_upd_idem)
qed auto

end

section \<open>ConnectionManager meets the contract\<close>

lemma length_delete_le: "length (AList.delete a m) \<le> length m"
  by (simp add: AList.delete_eq)

lemma unat_map_len:
  assumes "manager_wf self"
  shows "unat (map_len (shared_state self)) = length (shared_state self)"
proof -
  have "length (shared_state self) < 2 ^ 64"
    using assms unsigned_less [of "capacity self", where ?'a = nat] by (simp add: manager_wf_def)
  then show ?thesis by (simp add: map_len_def unat_of_nat)
qed

lemma card_keys:
  "distinct (map fst m) \<Longrightarrow> card (dom (map_of m)) = length m"
  using distinct_card [of "map fst m"] by (simp add: dom_map_of_conv_image_fst)

lemma unat_num_connections:
  "manager_wf self \<Longrightarrow> unat (num_connections self) = card (dom (manager_get self))"
  unfolding num_connections_def manager_get_def
  by (simp add: unat_map_len card_keys manager_wf_def)

lemma length_update_le: "length (AList.update a x m) \<le> Suc (length m)"
  by (induction m) auto

lemma manager_wf_insert:
  assumes "manager_wf self" and "map_len (shared_state self) < capacity self"
  shows "manager_wf (self\<lparr>shared_state := AList.update addr s (shared_state self)\<rparr>)"
proof -
  from assms have "Suc (length (shared_state self)) \<le> unat (capacity self)"
    by (simp add: word_less_nat_alt unat_map_len)
  with length_update_le [of addr s "shared_state self"]
  have "length (AList.update addr s (shared_state self)) \<le> unat (capacity self)" by simp
  with assms(1) show ?thesis by (simp add: manager_wf_def AList.distinct_update)
qed

lemma manager_wf_remove:
  "manager_wf self \<Longrightarrow> manager_wf (self\<lparr>shared_state := AList.delete addr (shared_state self)\<rparr>)"
  using length_delete_le [of addr "shared_state self"]
  by (simp add: manager_wf_def AList.distinct_delete)

interpretation mgr: connection_table manager_insert manager_remove manager_get num_connections
    capacity manager_wf
proof unfold_locales
  fix self :: ConnectionManager and a md
  assume wf: "manager_wf self"
  show "finite (dom (manager_get self))"
    by (simp add: manager_get_def [abs_def] finite_dom_map_of)
  show "unat (num_connections self) = card (dom (manager_get self))"
    using wf by (rule unat_num_connections)
  show "num_connections self \<le> capacity self"
    using wf by (simp add: word_le_nat_alt num_connections_def unat_map_len)
      (simp add: manager_wf_def)
  show "\<exists>t'. manager_remove self a = (manager_get self a, t') \<and> manager_wf t' \<and>
      capacity t' = capacity self \<and> manager_get t' = (manager_get self)(a := None)"
    using wf manager_wf_remove
    by (auto simp: manager_remove_def manager_get_def [abs_def] AList.delete_conv' Let_def)
  show "manager_insert self a md = (Err ''Connection limit reached'', self)"
    if "capacity self \<le> num_connections self"
    using that by (simp add: manager_insert_def num_connections_def)
  show "\<exists>t'. manager_insert self a md = (Ok (manager_get self a), t') \<and> manager_wf t' \<and>
      capacity t' = capacity self \<and> manager_get t' = (manager_get self)(a \<mapsto> md)"
    if "num_connections self < capacity self"
    using wf that manager_wf_insert
    by (auto simp: manager_insert_def num_connections_def manager_get_def [abs_def] AList.update_conv' Let_def)
qed

lemma manager_wf_new [simp]: "manager_wf (manager_new cap)"
  by (simp add: manager_wf_def manager_new_def)

lemma manager_get_new [simp]: "manager_get (manager_new cap) = Map.empty"
  by (simp add: manager_get_def [abs_def] manager_new_def)

lemma capacity_new [simp]: "capacity (manager_new cap) = cap"
  by (simp add: manager_new_def)

section \<open>Sequences of calls refine a bounded map\<close>

text \<open>The calls a task can make, and what they return.\<close>

datatype call =
    CallInsert SocketAddr Metadata
  | CallRemove SocketAddr
  | CallGet SocketAddr
  | CallNum

datatype reply =
    Inserted "(Metadata option, string) outcome"
  | Found "Metadata option"
  | Counted usize

fun manager_call :: "call \<Rightarrow> ConnectionManager \<Rightarrow> reply \<times> ConnectionManager" where
  "manager_call (CallInsert a s) m = map_prod Inserted id (manager_insert m a s)"
| "manager_call (CallRemove a) m = map_prod Found id (manager_remove m a)"
| "manager_call (CallGet a) m = (Found (manager_get m a), m)"
| "manager_call CallNum m = (Counted (num_connections m), m)"

text \<open>The specification: a capacity and a finite map, with no list and no word arithmetic.\<close>

type_synonym table = "nat \<times> (SocketAddr \<rightharpoonup> Metadata)"

fun table_call :: "call \<Rightarrow> table \<Rightarrow> reply \<times> table" where
  "table_call (CallInsert a s) (n, t) =
     (if n \<le> card (dom t) then (Inserted (Err ''Connection limit reached''), (n, t))
      else (Inserted (Ok (t a)), (n, t(a \<mapsto> s))))"
| "table_call (CallRemove a) (n, t) = (Found (t a), (n, t(a := None)))"
| "table_call (CallGet a) (n, t) = (Found (t a), (n, t))"
| "table_call CallNum (n, t) = (Counted (word_of_nat (card (dom t))), (n, t))"

fun run_calls :: "(call \<Rightarrow> 's \<Rightarrow> reply \<times> 's) \<Rightarrow> call list \<Rightarrow> 's \<Rightarrow> reply list \<times> 's" where
  "run_calls f [] s = ([], s)"
| "run_calls f (c # cs) s =
     (case f c s of (r, s') \<Rightarrow> (case run_calls f cs s' of (rs, s'') \<Rightarrow> (r # rs, s'')))"

lemma run_calls_Cons:
  "run_calls f (c # cs) s =
     (fst (f c s) # fst (run_calls f cs (snd (f c s))), snd (run_calls f cs (snd (f c s))))"
  by (simp split: prod.split)

declare run_calls.simps(2) [simp del] run_calls_Cons [simp]

definition table_of :: "ConnectionManager \<Rightarrow> table" where
  "table_of m = (unat (capacity m), manager_get m)"

lemma num_connections_word:
  "manager_wf m \<Longrightarrow> num_connections m = word_of_nat (card (dom (manager_get m)))"
  by (metis unat_num_connections of_nat_unat ucast_id)

lemma manager_call_wf: "manager_wf m \<Longrightarrow> manager_wf (snd (manager_call c m))"
  by (cases c) (simp_all add: mgr.invar_ins mgr.invar_rem)

lemma manager_call_refines:
  assumes "manager_wf m"
  shows "table_call c (table_of m) =
     (fst (manager_call c m), table_of (snd (manager_call c m)))"
proof (cases c)
  case (CallInsert a s)
  show ?thesis
  proof (cases "manager_insert m a s")
    case (Pair r m')
    from this assms show ?thesis
      by (cases rule: mgr.ins_cases) (auto simp: CallInsert Pair table_of_def)
  qed
next
  case (CallRemove a)
  show ?thesis
  proof (cases "manager_remove m a")
    case (Pair r m')
    from this assms show ?thesis
      by (cases rule: mgr.rem_cases) (auto simp: CallRemove Pair table_of_def)
  qed
next
  case (CallGet a)
  then show ?thesis by (simp add: table_of_def)
next
  case CallNum
  with assms show ?thesis by (simp add: table_of_def num_connections_word)
qed

lemma run_calls_refines:
  assumes "manager_wf m"
  shows "run_calls table_call cs (table_of m) =
     (fst (run_calls manager_call cs m), table_of (snd (run_calls manager_call cs m)))"
  using assms
proof (induction cs arbitrary: m)
  case (Cons c cs)
  then show ?case
    using manager_call_refines [of m c] manager_call_wf [of m c] by simp
qed simp

lemma run_calls_wf: "manager_wf m \<Longrightarrow> manager_wf (snd (run_calls manager_call cs m))"
  by (induction cs arbitrary: m) (simp_all add: manager_call_wf)

lemma manager_call_capacity:
  "manager_wf m \<Longrightarrow> capacity (snd (manager_call c m)) = capacity m"
  by (cases c) (simp_all add: mgr.limit_ins mgr.limit_rem)

lemma run_calls_capacity:
  "manager_wf m \<Longrightarrow> capacity (snd (run_calls manager_call cs m)) = capacity m"
  by (induction cs arbitrary: m) (simp_all add: manager_call_wf manager_call_capacity)

section \<open>Properties\<close>

text \<open>
  C8. Every sequence of calls on a fresh \<open>ConnectionManager\<close> returns exactly what the same
  calls return on a finite map bounded by the capacity: the list with its machine-integer
  length is a correct implementation of that map, on the error path too.
\<close>

theorem manager_refines_bounded_map:
  "fst (run_calls manager_call cs (manager_new cap)) =
   fst (run_calls table_call cs (unat cap, Map.empty))"
  using run_calls_refines [of "manager_new cap" cs] by (simp add: table_of_def)

text \<open>
  Whatever sequence of calls has run, the number of connections reported never exceeds the
  capacity the manager was created with, and is the number of distinct registered addresses.
\<close>

theorem connection_limit_respected:
  fixes cap :: usize
  defines "m cs \<equiv> snd (run_calls manager_call cs (manager_new cap))"
  shows "num_connections (m cs) \<le> cap \<and>
     unat (num_connections (m cs)) = card (dom (manager_get (m cs)))"
  using mgr.num_limit [of "m cs"] mgr.num_card [of "m cs"] run_calls_wf [of "manager_new cap" cs]
    run_calls_capacity [of "manager_new cap" cs]
  by (simp add: m_def)

text \<open>
  At the limit every insertion is refused and the table is left as it was, also for an
  address that is already registered and would have taken no new entry.
\<close>

theorem insert_refused_at_limit:
  assumes "manager_wf self" and "card (dom (manager_get self)) = unat (capacity self)"
  shows "manager_insert self addr s = (Err ''Connection limit reached'', self)"
  using assms mgr.ins_full [of self addr s] by (simp add: word_le_nat_alt mgr.num_card)

lemma insert_refused_at_limit_witness:
  "manager_insert \<lparr>capacity = 1, shared_state = [(V4 127 0 0 1 8080, \<lparr>created_at = 5\<rparr>)]\<rparr>
     (V4 127 0 0 1 8080) \<lparr>created_at = 9\<rparr> =
   (Err ''Connection limit reached'',
    \<lparr>capacity = 1, shared_state = [(V4 127 0 0 1 8080, \<lparr>created_at = 5\<rparr>)]\<rparr>)"
  by (rule insert_refused_at_limit) (simp_all add: manager_wf_def manager_get_def [abs_def])

text \<open>
  A task that registers an address no other task holds, and later removes it, leaves every
  other registration as it found it and makes its place available again.
\<close>

theorem registration_session_restores:
  assumes "manager_wf self" and "manager_get self addr = None"
    and "manager_insert self addr s = (Ok old, self')"
  shows "manager_get (snd (manager_remove self' addr)) = manager_get self \<and>
     num_connections (snd (manager_remove self' addr)) = num_connections self \<and> old = None"
proof -
  have "manager_wf (snd (manager_remove self' addr))"
    using assms(1,3) mgr.invar_ins [of self addr s] by (simp add: mgr.invar_rem)
  with assms mgr.session_restores [of self addr s old self'] show ?thesis
    by (simp add: num_connections_word)
qed

lemma registration_session_restores_witness:
  "\<exists>m. manager_insert (manager_new 2) (V4 127 0 0 1 8080) \<lparr>created_at = 5\<rparr> = (Ok None, m) \<and>
     num_connections m = 1 \<and>
     num_connections (snd (manager_remove m (V4 127 0 0 1 8080))) = num_connections (manager_new 2)"
proof -
  let ?m = "\<lparr>capacity = 2, shared_state = [(V4 127 0 0 1 8080, \<lparr>created_at = 5\<rparr>)]\<rparr>"
  have ins: "manager_insert (manager_new 2) (V4 127 0 0 1 8080) \<lparr>created_at = 5\<rparr> = (Ok None, ?m)"
    by (simp add: manager_insert_def map_len_def manager_new_def)
  moreover have "num_connections ?m = 1"
    by (simp add: num_connections_def map_len_def)
  ultimately show ?thesis
    using registration_session_restores [OF manager_wf_new _ ins] by simp
qed

end
