(* ===== verification/Lifecycle.thy ===== *)
theory Lifecycle
  imports Connection Manager
begin

text \<open>
  One connection task: the function \<open>start\<close> of node/connection/src/lib.rs, from registration
  with the \<open>ConnectionManager\<close> to its cleanup, as a labelled step relation on the shared
  table and the task's own state. The two loops that \<open>select!\<close> runs concurrently interleave
  one iteration at a time. The environment chooses what the stream delivers, which broadcast
  arrives and whether a send succeeds; the label records it.
\<close>

section \<open>State and steps\<close>

text \<open>
  Where the task is in \<open>start\<close>: before \<open>manager.insert\<close>; returned because the limit was
  reached; registered and about to send the handshake; inside \<open>select!\<close>; after \<open>select!\<close>
  with the receiver closed; after \<open>writer.close()\<close>; after \<open>manager.remove\<close>; panicked.
\<close>

datatype phase =
    Spawned | Refused | Registered | Running | Draining | WriterClosed | Finished | Crashed

text \<open>
  \<open>listens\<close>: the broadcast branch of the handler's current \<open>select!\<close> is enabled. The macro
  disables a branch whose future completed without matching its pattern, here when the
  broadcast receiver reports that it lagged, until the next round.
\<close>

record 'ch link =
  peer_addr :: SocketAddr
  phase :: phase
  chan :: 'ch
  sent :: "bytes list"
  listens :: bool

abbreviation fresh_link :: "SocketAddr \<Rightarrow> 'ch \<Rightarrow> 'ch link" where
  "fresh_link addr ch \<equiv>
     \<lparr>peer_addr = addr, phase = Spawned, chan = ch, sent = [], listens = True\<rparr>"

text \<open>The operations of the libraries the task uses.\<close>

record ('ch, 'e) env =
  codec_ser :: "Message \<Rightarrow> bytes option"
  codec_de :: "bytes \<Rightarrow> 'e + Message"
  ch_new :: "usize \<Rightarrow> ('ch, unit) outcome"
  ch_try_send :: "'ch \<Rightarrow> bytes \<Rightarrow> (TrySendError + unit) \<times> 'ch"
  ch_recv :: "'ch \<Rightarrow> recv_poll \<times> 'ch"
  ch_close :: "'ch \<Rightarrow> 'ch"

datatype 'io event =
    EvInsert Metadata
  | EvHandshake bool
  | EvRead "('io + bytes) option"
  | EvSelect selected bool
  | EvLagged
  | EvCloseWriter
  | EvRemove

text \<open>
  \<open>start_connection\<close> creates the channel and spawns the task; its \<open>JoinHandle\<close> is not kept.
\<close>

definition start_connection :: "('ch, 'e) env \<Rightarrow> SocketAddr \<Rightarrow> usize \<Rightarrow> ('ch link, unit) outcome" where
  "start_connection E addr max_pending =
     and_then (ch_new E max_pending) (\<lambda>ch. Ok (fresh_link addr ch))"

text \<open>\<open>HandshakeMessage::start(&addr).unwrap()\<close> and its \<open>as_bytes().unwrap()\<close>.\<close>

definition first_frame :: "('ch, 'e) env \<Rightarrow> SocketAddr \<Rightarrow> (bytes, unit) outcome" where
  "first_frame E addr =
     and_then (unwrap (handshake_start addr)) (\<lambda>msg.
     and_then (as_bytes (codec_ser E) msg) (\<lambda>b. unwrap b))"

text \<open>
  Which branch the handler's \<open>select!\<close> can take: the channel gives a message, a broadcast is
  received while that branch is enabled, or the channel is at its end and the broadcast branch
  is disabled.
\<close>

fun select_ready :: "('ch, 'e) env \<Rightarrow> bool \<Rightarrow> 'ch \<Rightarrow> selected \<Rightarrow> 'ch \<Rightarrow> bool" where
  "select_ready E bc ch (FromChannel msg) ch' \<longleftrightarrow> ch_recv E ch = (Ready (Some msg), ch')"
| "select_ready E bc ch (FromBroadcast b) ch' \<longleftrightarrow> bc \<and> ch' = ch"
| "select_ready E bc ch AllDisabled ch' \<longleftrightarrow> \<not> bc \<and> ch_recv E ch = (Ready None, ch')"

inductive task_step ::
    "('ch, 'e) env \<Rightarrow> ConnectionManager \<times> 'ch link \<Rightarrow> 'io event \<Rightarrow> ConnectionManager \<times> 'ch link \<Rightarrow> bool"
  for E where
  refuse:
    "phase l = Spawned \<Longrightarrow> manager_insert m (peer_addr l) md = (Err e, m') \<Longrightarrow>
     task_step E (m, l) (EvInsert md) (m', l\<lparr>phase := Refused\<rparr>)"
| register:
    "phase l = Spawned \<Longrightarrow> manager_insert m (peer_addr l) md = (Ok old, m') \<Longrightarrow>
     task_step E (m, l) (EvInsert md) (m', l\<lparr>phase := Registered\<rparr>)"
| handshake:
    "phase l = Registered \<Longrightarrow> first_frame E (peer_addr l) = Ok b \<Longrightarrow>
     record_send ok (sent l) b = (ok, sent') \<Longrightarrow>
     task_step E (m, l) (EvHandshake ok) (m, l\<lparr>phase := Running, sent := sent'\<rparr>)"
| handshake_panic:
    "phase l = Registered \<Longrightarrow> first_frame E (peer_addr l) = Panic p \<Longrightarrow>
     task_step E (m, l) (EvHandshake ok) (m, l\<lparr>phase := Crashed\<rparr>)"
| read_on:
    "phase l = Running \<Longrightarrow> read_iteration (ch_try_send E) item (chan l) = (Continue, ch') \<Longrightarrow>
     task_step E (m, l) (EvRead item) (m, l\<lparr>chan := ch'\<rparr>)"
| read_ends:
    "phase l = Running \<Longrightarrow> read_iteration (ch_try_send E) item (chan l) = (Return r, ch') \<Longrightarrow>
     task_step E (m, l) (EvRead item) (m, l\<lparr>phase := Draining, chan := ch_close E ch'\<rparr>)"
| handle_on:
    "phase l = Running \<Longrightarrow> select_ready E (listens l) (chan l) sel ch' \<Longrightarrow>
     handler_iteration (codec_ser E) (codec_de E) (record_send ok) sel (sent l) = (Continue, sent') \<Longrightarrow>
     task_step E (m, l) (EvSelect sel ok) (m, l\<lparr>chan := ch', sent := sent', listens := True\<rparr>)"
| lag:
    "phase l = Running \<Longrightarrow> listens l \<Longrightarrow> task_step E (m, l) EvLagged (m, l\<lparr>listens := False\<rparr>)"
| handle_ends:
    "phase l = Running \<Longrightarrow> select_ready E (listens l) (chan l) sel ch' \<Longrightarrow>
     handler_iteration (codec_ser E) (codec_de E) (record_send ok) sel (sent l) = (Return r, sent') \<Longrightarrow>
     \<not> panics r \<Longrightarrow>
     task_step E (m, l) (EvSelect sel ok)
       (m, l\<lparr>phase := Draining, chan := ch_close E ch', sent := sent'\<rparr>)"
| handle_panic:
    "phase l = Running \<Longrightarrow> select_ready E (listens l) (chan l) sel ch' \<Longrightarrow>
     handler_iteration (codec_ser E) (codec_de E) (record_send ok) sel (sent l) = (Return r, sent') \<Longrightarrow>
     panics r \<Longrightarrow>
     task_step E (m, l) (EvSelect sel ok) (m, l\<lparr>phase := Crashed, chan := ch', sent := sent'\<rparr>)"
| close_writer:
    "phase l = Draining \<Longrightarrow> task_step E (m, l) EvCloseWriter (m, l\<lparr>phase := WriterClosed\<rparr>)"
| remove:
    "phase l = WriterClosed \<Longrightarrow> manager_remove m (peer_addr l) = (old, m') \<Longrightarrow>
     task_step E (m, l) EvRemove (m', l\<lparr>phase := Finished\<rparr>)"

inductive_cases insertE [elim!]: "task_step E (m, l) (EvInsert md) ml"
inductive_cases handshakeE [elim!]: "task_step E (m, l) (EvHandshake ok) ml"
inductive_cases readE [elim!]: "task_step E (m, l) (EvRead item) ml"
inductive_cases selectE [elim!]: "task_step E (m, l) (EvSelect sel ok) ml"
inductive_cases lagE [elim!]: "task_step E (m, l) EvLagged ml"
inductive_cases closeE [elim!]: "task_step E (m, l) EvCloseWriter ml"
inductive_cases removeE [elim!]: "task_step E (m, l) EvRemove ml"

text \<open>Runs of a task, with the events in order.\<close>

abbreviation task_run ::
    "('ch, 'e) env \<Rightarrow> ConnectionManager \<times> 'ch link \<Rightarrow> 'io event list \<Rightarrow> ConnectionManager \<times> 'ch link \<Rightarrow> bool" where
  "task_run E \<equiv> run (task_step E)"

text \<open>
  The same run seen from the task alone, whatever other tasks do to the table in between: each
  step starts from the task's own state and from some table.
\<close>

definition link_step :: "('ch, 'e) env \<Rightarrow> 'ch link \<Rightarrow> 'io event \<Rightarrow> 'ch link \<Rightarrow> bool" where
  "link_step E l ev l' \<longleftrightarrow> (\<exists>m m'. task_step E (m, l) ev (m', l'))"

abbreviation link_run :: "('ch, 'e) env \<Rightarrow> 'ch link \<Rightarrow> 'io event list \<Rightarrow> 'ch link \<Rightarrow> bool" where
  "link_run E \<equiv> run (link_step E)"

lemma link_stepI: "task_step E s ev t \<Longrightarrow> link_step E (snd s) ev (snd t)"
  by (cases s; cases t) (auto simp: link_step_def)

lemma link_stepE:
  assumes "link_step E l ev l'"
  obtains s t where "task_step E s ev t" "snd s = l" "snd t = l'"
  using assms by (force simp: link_step_def)

lemma link_runI: "task_run E s evs t \<Longrightarrow> link_run E (snd s) evs (snd t)"
  by (induction rule: run.induct) (auto intro: run.intros link_stepI)

section \<open>Order of the phases\<close>

text \<open>
  The phases a task can still go through are bounded by its rank, and no step goes back: this
  is the order on phases.
\<close>

fun rank :: "phase \<Rightarrow> nat" where
  "rank Spawned = 0"
| "rank Registered = 1"
| "rank Running = 2"
| "rank Draining = 3"
| "rank WriterClosed = 4"
| "rank Finished = 5"
| "rank Refused = 6"
| "rank Crashed = 7"

lemma rank_inject: "rank p = rank q \<longleftrightarrow> p = q"
  by (cases p; cases q) simp_all

instantiation phase :: linorder
begin

definition less_eq_phase :: "phase \<Rightarrow> phase \<Rightarrow> bool" where
  "less_eq_phase p q \<longleftrightarrow> rank p \<le> rank q"

definition less_phase :: "phase \<Rightarrow> phase \<Rightarrow> bool" where
  "less_phase p q \<longleftrightarrow> rank p < rank q"

instance
  by standard (auto simp: less_eq_phase_def less_phase_def rank_inject)

end

definition terminated :: "phase \<Rightarrow> bool" where
  "terminated p \<longleftrightarrow> p = Refused \<or> p = Finished \<or> p = Crashed"

lemma step_phase_mono: "task_step E s ev t \<Longrightarrow> phase (snd s) \<le> phase (snd t)"
  by (induction rule: task_step.induct) (simp_all add: less_eq_phase_def)

lemma step_addr: "task_step E s ev t \<Longrightarrow> peer_addr (snd t) = peer_addr (snd s)"
  by (induction rule: task_step.induct) simp_all

lemma terminated_stuck: "task_step E s ev t \<Longrightarrow> \<not> terminated (phase (snd s))"
  by (induction rule: task_step.induct) (simp_all add: terminated_def)

interpretation phase_order: preserved "task_step E" "\<lambda>s. p \<le> phase (snd s)" for E p
  by unfold_locales (auto dest: step_phase_mono)

interpretation same_peer: preserved "link_step E" "\<lambda>l. peer_addr l = a" for E a
  by unfold_locales (auto elim!: link_stepE dest: step_addr)

text \<open>What each step does to the shared table.\<close>

fun table_event :: "'io event \<Rightarrow> bool" where
  "table_event (EvInsert md) = True"
| "table_event EvRemove = True"
| "table_event (EvHandshake ok) = False"
| "table_event (EvRead item) = False"
| "table_event (EvSelect sel ok) = False"
| "table_event EvLagged = False"
| "table_event EvCloseWriter = False"

lemma step_table_frame: "task_step E s ev t \<Longrightarrow> \<not> table_event ev \<Longrightarrow> fst t = fst s"
  by (induction rule: task_step.induct) simp_all

lemma step_manager_wf: "task_step E s ev t \<Longrightarrow> manager_wf (fst s) \<Longrightarrow> manager_wf (fst t)"
proof (induction rule: task_step.induct)
  case (refuse l m md e m')
  then show ?case using mgr.invar_ins [of m "peer_addr l" md] by simp
next
  case (register l m md old m')
  then show ?case using mgr.invar_ins [of m "peer_addr l" md] by simp
next
  case (remove l m old m')
  then show ?case using mgr.invar_rem [of m "peer_addr l"] by simp
qed simp_all

lemma step_capacity:
  "task_step E s ev t \<Longrightarrow> manager_wf (fst s) \<Longrightarrow> capacity (fst t) = capacity (fst s)"
proof (induction rule: task_step.induct)
  case (refuse l m md e m')
  then show ?case using mgr.limit_ins [of m "peer_addr l" md] by simp
next
  case (register l m md old m')
  then show ?case using mgr.limit_ins [of m "peer_addr l" md] by simp
next
  case (remove l m old m')
  then show ?case using mgr.limit_rem [of m "peer_addr l"] by simp
qed simp_all

interpretation shared_table: preserved "task_step E"
    "\<lambda>s. manager_wf (fst s) \<and> capacity (fst s) = cap" for E cap
  by unfold_locales (auto dest: step_manager_wf step_capacity)

section \<open>The life of one task\<close>

text \<open>
  Counting events: a task inserts itself at most once, removes itself at most once, and its
  phase tells which it has done.
\<close>

fun is_insert :: "'io event \<Rightarrow> bool" where
  "is_insert (EvInsert md) = True"
| "is_insert _ = False"

fun is_remove :: "'io event \<Rightarrow> bool" where
  "is_remove EvRemove = True"
| "is_remove _ = False"

definition event_counts :: "phase \<Rightarrow> nat \<times> nat" where
  "event_counts p =
     (if p = Spawned then 0 else 1, if p = Finished then 1 else 0)"

lemma step_counts:
  "task_step E s ev t \<Longrightarrow>
   event_counts (phase (snd t)) =
     (fst (event_counts (phase (snd s))) + (if is_insert ev then 1 else 0),
      snd (event_counts (phase (snd s))) + (if is_remove ev then 1 else 0))"
  by (induction rule: task_step.induct) (simp_all add: event_counts_def)

lemma run_counts:
  "task_run E s evs t \<Longrightarrow> phase (snd s) = Spawned \<Longrightarrow>
   event_counts (phase (snd t)) = (length (filter is_insert evs), length (filter is_remove evs))"
proof (induction rule: run.induct)
  case (none s)
  then show ?case by (simp add: event_counts_def)
next
  case (more s evs t ev u)
  then show ?case using step_counts [OF more.hyps(2)] by simp
qed

text \<open>The channel of a running task is open.\<close>

definition chan_open :: "('ch \<Rightarrow> bool) \<Rightarrow> 'ch link \<Rightarrow> bool" where
  "chan_open is_closed l \<longleftrightarrow> (phase l \<le> Running \<longrightarrow> \<not> is_closed (chan l))"

definition channel_ops ::
    "('ch, 'e) env \<Rightarrow> ('ch \<Rightarrow> bytes list) \<Rightarrow> ('ch \<Rightarrow> bool) \<Rightarrow> ('ch \<Rightarrow> nat) \<Rightarrow> bool" where
  "channel_ops E buffered is_closed limit \<longleftrightarrow>
     mpsc (ch_try_send E) (ch_recv E) (ch_close E) buffered is_closed limit (ch_new E)"

lemma channel_opsD:
  "channel_ops E buffered is_closed limit \<Longrightarrow>
   mpsc_channel (ch_try_send E) (ch_recv E) (ch_close E) buffered is_closed limit"
  by (simp add: channel_ops_def mpsc.axioms(1))

lemma read_continues:
  assumes ops: "channel_ops E buffered is_closed limit"
    and iter: "read_iteration (ch_try_send E) item ch = (Continue, ch')"
  shows "\<exists>msg. item = Some (Inr msg) \<and> buffered ch' = buffered ch @ [msg] \<and> \<not> is_closed ch'"
proof -
  from iter obtain msg u where item: "item = Some (Inr msg)" and "ch_try_send E ch msg = (Inr u, ch')"
    by (auto simp: read_iteration_def split: option.splits sum.splits prod.splits TrySendError.splits)
  from mpsc_channel.try_send_cases [OF channel_opsD [OF ops] this(2)] item
  show ?thesis by (metis sum.distinct(1))
qed

lemma select_open:
  assumes ops: "channel_ops E buffered is_closed limit"
    and ready: "select_ready E bc ch sel ch'" and opn: "\<not> is_closed ch"
  shows "sel \<noteq> AllDisabled \<and> \<not> is_closed ch'"
  using ready opn mpsc_channel.recv_open_not_end [OF channel_opsD [OF ops]]
    mpsc_channel.recv_message [OF channel_opsD [OF ops]]
  by (cases sel) (auto elim!: mpsc_channel.recv_cases [OF channel_opsD [OF ops]])

lemma step_chan_open:
  assumes ops: "channel_ops E buffered is_closed limit"
  shows "task_step E s ev t \<Longrightarrow> chan_open is_closed (snd s) \<Longrightarrow> chan_open is_closed (snd t)"
proof (induction rule: task_step.induct)
  case (read_on l item ch' m)
  then show ?case using read_continues [OF ops] by (auto simp: chan_open_def)
next
  case (handle_on l sel ch' ok sent' m)
  then show ?case using select_open [OF ops] by (auto simp: chan_open_def)
qed (auto simp: chan_open_def less_eq_phase_def)

text \<open>With a serializer that never fails, no step of a task with an open channel panics.\<close>

lemma step_no_crash:
  assumes ops: "channel_ops E buffered is_closed limit" and total: "\<And>msg. codec_ser E msg \<noteq> None"
  shows "task_step E s ev t \<Longrightarrow> chan_open is_closed (snd s) \<Longrightarrow> phase (snd t) \<noteq> Crashed"
proof (induction rule: task_step.induct)
  case (handshake_panic l p m ok)
  then show ?case using total by (auto simp: first_frame_def handshake_start_def outcome_simps as_bytes_def)
next
  case (handle_panic l sel ch' ok r sent' m)
  then have "sel \<noteq> AllDisabled" using select_open [OF ops] by (auto simp: chan_open_def)
  moreover have "\<not> panics (fst (handle_received (codec_ser E) (codec_de E) (record_send ok) (sent l) msg))" for msg
    by (cases "handle_received (codec_ser E) (codec_de E) (record_send ok) (sent l) msg")
      (auto elim!: handle_received_cases simp: total)
  ultimately show ?case using handle_panic.hyps(3,4)
    by (cases sel) (auto simp: handler_iteration_def split: prod.splits outcome.splits bool.splits,
      (metis fst_conv panics.simps(3))+)
qed simp_all

section \<open>Messages through the channel\<close>

fun read_of :: "'io event \<Rightarrow> bytes list" where
  "read_of (EvRead (Some (Inr msg))) = [msg]"
| "read_of _ = []"

fun handled_of :: "'io event \<Rightarrow> bytes list" where
  "handled_of (EvSelect (FromChannel msg) ok) = [msg]"
| "handled_of _ = []"

definition reads :: "'io event list \<Rightarrow> bytes list" where
  "reads evs = concat (map read_of evs)"

definition handled :: "'io event list \<Rightarrow> bytes list" where
  "handled evs = concat (map handled_of evs)"

lemma reads_handled_snoc [simp]:
  "reads [] = []" "reads (evs @ [ev]) = reads evs @ read_of ev"
  "handled [] = []" "handled (evs @ [ev]) = handled evs @ handled_of ev"
  by (simp_all add: reads_def handled_def)

lemma select_buffered:
  assumes ops: "channel_ops E buffered is_closed limit" and "select_ready E bc ch sel ch'"
  shows "buffered ch = handled_of (EvSelect sel ok) @ buffered ch' \<and> limit ch' = limit ch"
  using assms(2)
  by (cases sel) (auto elim: mpsc_channel.recv_cases [OF channel_opsD [OF ops]])

lemma select_shrinks:
  assumes "channel_ops E buffered is_closed limit" and "select_ready E bc ch sel ch'"
  shows "length (buffered ch') \<le> length (buffered ch) \<and> limit ch' = limit ch"
  using assms(2)
  by (cases sel) (auto elim: mpsc_channel.recv_cases [OF channel_opsD [OF assms(1)]])

lemma read_limit:
  assumes ops: "channel_ops E buffered is_closed limit"
    and "length (buffered ch) \<le> limit ch"
    and "read_iteration (ch_try_send E) item ch = (flow, ch')"
  shows "length (buffered ch') \<le> limit ch' \<and> limit ch' = limit ch"
proof (cases "\<exists>msg. item = Some (Inr msg)")
  case True
  then obtain msg where item: "item = Some (Inr msg)" by blast
  obtain r ch2 where send: "ch_try_send E ch msg = (r, ch2)" by (cases "ch_try_send E ch msg")
  with item assms(3) have "ch2 = ch'"
    by (auto simp: read_iteration_def split: sum.splits TrySendError.splits)
  with send assms(2) show ?thesis
    by (cases rule: mpsc_channel.try_send_cases [OF channel_opsD [OF ops] send]) auto
next
  case False
  with assms(2,3) show ?thesis
    by (auto simp: read_iteration_def split: option.splits sum.splits)
qed

text \<open>
  One step moves at most one message into the channel or out of it; as long as the task runs,
  what was buffered and what was read are what was handled and what is buffered.
\<close>

lemma step_flow:
  assumes ops: "channel_ops E buffered is_closed limit"
  shows "task_step E s ev t \<Longrightarrow>
    (if phase (snd s) \<le> Running
     then \<exists>rest. buffered (chan (snd s)) @ read_of ev = handled_of ev @ rest \<and>
            (phase (snd t) \<le> Running \<longrightarrow> rest = buffered (chan (snd t)))
     else read_of ev = [] \<and> handled_of ev = [])"
proof (induction rule: task_step.induct)
  case (read_on l item ch' m)
  then show ?case using read_continues [OF ops] by (fastforce simp: less_eq_phase_def)
next
  case (read_ends l item r ch' m)
  have "handled_of (EvRead item) = []" by simp
  with read_ends show ?case by (auto simp: less_eq_phase_def)
next
  case (handle_on l sel ch' ok sent' m)
  then show ?case using select_buffered [OF ops, of "listens l" "chan l" sel ch' ok] by (auto simp: less_eq_phase_def)
next
  case (handle_ends l sel ch' ok r sent' m)
  then show ?case using select_buffered [OF ops, of "listens l" "chan l" sel ch' ok] by (auto simp: less_eq_phase_def)
next
  case (handle_panic l sel ch' ok r sent' m)
  then show ?case using select_buffered [OF ops, of "listens l" "chan l" sel ch' ok] by (auto simp: less_eq_phase_def)
qed (simp_all add: less_eq_phase_def)

lemma run_flow:
  assumes ops: "channel_ops E buffered is_closed limit"
  shows "link_run E l evs l' \<Longrightarrow> phase l = Spawned \<Longrightarrow> buffered (chan l) = [] \<Longrightarrow>
    \<exists>rest. reads evs = handled evs @ rest \<and> (phase l' \<le> Running \<longrightarrow> rest = buffered (chan l'))"
proof (induction rule: run.induct)
  case (none l)
  then show ?case by simp
next
  case (more l evs l1 ev l2)
  then obtain rest where rest: "reads evs = handled evs @ rest"
    "phase l1 \<le> Running \<longrightarrow> rest = buffered (chan l1)" by auto
  obtain s t where step: "task_step E s ev t" "snd s = l1" "snd t = l2"
    using more.hyps(2) by (rule link_stepE)
  note flow = step_flow [OF ops step(1), unfolded step(2,3)]
  have mono: "phase l1 \<le> phase l2" using step_phase_mono [OF step(1)] step(2,3) by simp
  show ?case
  proof (cases "phase l1 \<le> Running")
    case True
    with flow rest obtain rest' where "rest @ read_of ev = handled_of ev @ rest'"
      "phase l2 \<le> Running \<longrightarrow> rest' = buffered (chan l2)" by auto
    then have "reads (evs @ [ev]) = handled (evs @ [ev]) @ rest'" using rest(1) by simp
    with \<open>phase l2 \<le> Running \<longrightarrow> rest' = buffered (chan l2)\<close> show ?thesis by blast
  next
    case False
    with mono have "\<not> phase l2 \<le> Running" by (meson order_trans)
    with False flow rest show ?thesis by simp
  qed
qed

lemma step_limit:
  assumes ops: "channel_ops E buffered is_closed limit"
  shows "task_step E s ev t \<Longrightarrow> length (buffered (chan (snd s))) \<le> limit (chan (snd s)) \<Longrightarrow>
    length (buffered (chan (snd t))) \<le> limit (chan (snd t)) \<and>
    limit (chan (snd t)) = limit (chan (snd s))"
proof (induction rule: task_step.induct)
  case (read_on l item ch' m)
  then show ?case using read_limit [OF ops, of "chan l" item Continue ch'] by simp
next
  case (read_ends l item r ch' m)
  then show ?case
    using read_limit [OF ops, of "chan l" item "Return r" ch']
      mpsc_channel.close_keeps [OF channel_opsD [OF ops]] by simp
next
  case (handle_on l sel ch' ok sent' m)
  then show ?case using select_shrinks [OF ops, of "listens l" "chan l" sel ch'] by fastforce
next
  case (handle_ends l sel ch' ok r sent' m)
  then show ?case
    using select_shrinks [OF ops, of "listens l" "chan l" sel ch']
      mpsc_channel.close_keeps [OF channel_opsD [OF ops]] by fastforce
next
  case (handle_panic l sel ch' ok r sent' m)
  then show ?case using select_shrinks [OF ops, of "listens l" "chan l" sel ch'] by fastforce
qed simp_all

lemma run_limit:
  assumes ops: "channel_ops E buffered is_closed limit"
  shows "link_run E l evs l' \<Longrightarrow> length (buffered (chan l)) \<le> limit (chan l) \<Longrightarrow>
    length (buffered (chan l')) \<le> limit (chan l') \<and> limit (chan l') = limit (chan l)"
proof (induction rule: run.induct)
  case (more l evs l1 ev l2)
  then show ?case using step_limit [OF ops] by (fastforce elim!: link_stepE)
qed simp

section \<open>What is sent\<close>

text \<open>
  What each event adds to what the peer receives: the handshake's frame, the answer to a
  handled message, a broadcast; nothing when the send fails.
\<close>

fun event_output :: "('ch, 'e) env \<Rightarrow> SocketAddr \<Rightarrow> 'io event \<Rightarrow> bytes list" where
  "event_output E addr (EvHandshake ok) =
     (case first_frame E addr of Ok b \<Rightarrow> if ok then [b] else [] | _ \<Rightarrow> [])"
| "event_output E addr (EvSelect sel ok) =
     (case round_output (codec_ser E) (codec_de E) sel of
        Some out \<Rightarrow> if ok then out else [] | None \<Rightarrow> [])"
| "event_output E addr _ = []"

lemma handler_iteration_unsent:
  assumes "handler_iteration ser de (record_send False) sel w = (flow, w')"
  shows "w' = w"
proof (cases sel)
  case (FromChannel msg)
  obtain r w2 where call: "handle_received ser de (record_send False) w msg = (r, w2)"
    by (cases "handle_received ser de (record_send False) w msg")
  then have "w2 = w" by (cases rule: handle_received_cases) (simp_all add: record_send_def)
  with call show ?thesis
    using assms FromChannel by (auto simp: handler_iteration_channel split: outcome.splits)
qed (use assms in \<open>auto simp: handler_iteration_def record_send_def\<close>)

lemma handler_iteration_output:
  assumes "handler_iteration ser de (record_send ok) sel w = (flow, w')"
  shows "w' = w @ (case round_output ser de sel of Some out \<Rightarrow> if ok then out else [] | None \<Rightarrow> [])"
proof (cases "round_output ser de sel")
  case None
  from handler_iteration_bad [OF this, of "record_send ok" w] assms None show ?thesis by auto
next
  case (Some out)
  show ?thesis
  proof (cases ok)
    case True
    with assms Some handler_iteration_good [OF Some, of w] show ?thesis by simp
  next
    case False
    with assms Some handler_iteration_unsent [of ser de sel w flow w'] show ?thesis by simp
  qed
qed

lemma step_output:
  "task_step E s ev t \<Longrightarrow>
   sent (snd t) = sent (snd s) @ event_output E (peer_addr (snd s)) ev"
  by (induction rule: task_step.induct) (auto simp: record_send_def dest: handler_iteration_output)

lemma run_output:
  "link_run E l evs l' \<Longrightarrow> sent l' = sent l @ concat (map (event_output E (peer_addr l)) evs)"
proof (induction rule: run.induct)
  case (more l evs l1 ev l2)
  have "peer_addr l1 = peer_addr l" by (rule same_peer.run_keeps [OF more.hyps(1) refl])
  with more.IH more.hyps(2) step_output show ?case by (fastforce elim!: link_stepE)
qed simp

section \<open>A disabled broadcast branch\<close>

lemma step_deaf:
  "task_step E s ev t \<Longrightarrow> Running \<le> phase (snd s) \<and> \<not> listens (snd s) \<Longrightarrow> handled_of ev = [] \<Longrightarrow>
   sent (snd t) = sent (snd s) \<and> Running \<le> phase (snd t) \<and> \<not> listens (snd t)"
proof (induction rule: task_step.induct)
  case (handle_on l sel ch' ok sent' m)
  then show ?case by (cases sel) (auto simp: handler_iteration_def)
next
  case (handle_ends l sel ch' ok r sent' m)
  then show ?case by (cases sel) (auto simp: handler_iteration_def)
next
  case (handle_panic l sel ch' ok r sent' m)
  then show ?case by (cases sel) (auto simp: handler_iteration_def less_eq_phase_def)
qed (auto simp: less_eq_phase_def)

lemma run_deaf:
  "link_run E l evs l' \<Longrightarrow> Running \<le> phase l \<and> \<not> listens l \<Longrightarrow> handled evs = [] \<Longrightarrow>
   sent l' = sent l \<and> Running \<le> phase l' \<and> \<not> listens l'"
proof (induction rule: run.induct)
  case (more l evs l1 ev l2)
  then show ?case using step_deaf by (fastforce elim!: link_stepE)
qed simp

text \<open>The round that handles a message ends with the branch enabled again, if it goes well.\<close>

lemma step_hears_again:
  "task_step E s ev t \<Longrightarrow> handled_of ev \<noteq> [] \<Longrightarrow> phase (snd t) = Running \<Longrightarrow> listens (snd t)"
  by (induction rule: task_step.induct) (auto split: if_splits)

section \<open>The order of events\<close>

text \<open>
  The events a task has gone through when it is in a given phase: registration, then the
  handshake, then reads and handler rounds in any order, then the two steps of the cleanup.
\<close>

fun is_io :: "'io event \<Rightarrow> bool" where
  "is_io (EvRead item) = True"
| "is_io (EvSelect sel ok) = True"
| "is_io EvLagged = True"
| "is_io _ = False"

definition began :: "'io event list \<Rightarrow> 'io event list \<Rightarrow> bool" where
  "began evs tail \<longleftrightarrow>
     (\<exists>md ok mid. evs = EvInsert md # EvHandshake ok # mid @ tail \<and> list_all is_io mid)"

fun task_shape :: "phase \<Rightarrow> 'io event list \<Rightarrow> bool" where
  "task_shape Spawned evs = (evs = [])"
| "task_shape Refused evs = (\<exists>md. evs = [EvInsert md])"
| "task_shape Registered evs = (\<exists>md. evs = [EvInsert md])"
| "task_shape Running evs = began evs []"
| "task_shape Draining evs = began evs []"
| "task_shape WriterClosed evs = began evs [EvCloseWriter]"
| "task_shape Finished evs = began evs [EvCloseWriter, EvRemove]"
| "task_shape Crashed evs = began evs []"

lemma began_io: "began evs [] \<Longrightarrow> is_io ev \<Longrightarrow> began (evs @ [ev]) []"
  by (fastforce simp: began_def)

lemma began_snoc: "began evs tail \<Longrightarrow> began (evs @ [ev]) (tail @ [ev])"
  by (fastforce simp: began_def)

lemma began_start: "began [EvInsert md, EvHandshake ok] []"
  by (simp add: began_def)

lemma step_shape:
  "task_step E s ev t \<Longrightarrow> task_shape (phase (snd s)) evs \<Longrightarrow> task_shape (phase (snd t)) (evs @ [ev])"
  by (induction rule: task_step.induct)
    (auto simp: began_io began_start dest: began_snoc)

lemma run_shape:
  "link_run E l evs l' \<Longrightarrow> phase l = Spawned \<Longrightarrow> task_shape (phase l') evs"
proof (induction rule: run.induct)
  case (more l evs l1 ev l2)
  then show ?case using step_shape by (fastforce elim!: link_stepE)
qed simp

section \<open>The steps as a function\<close>

text \<open>The relation is deterministic: given the label, this function computes the step.\<close>

fun select_next :: "('ch, 'e) env \<Rightarrow> bool \<Rightarrow> 'ch \<Rightarrow> selected \<Rightarrow> 'ch option" where
  "select_next E bc ch (FromChannel msg) =
     (case ch_recv E ch of (Ready (Some m), ch') \<Rightarrow> if m = msg then Some ch' else None | _ \<Rightarrow> None)"
| "select_next E bc ch (FromBroadcast b) = (if bc then Some ch else None)"
| "select_next E bc ch AllDisabled =
     (if bc then None else case ch_recv E ch of (Ready None, ch') \<Rightarrow> Some ch' | _ \<Rightarrow> None)"

fun task_next ::
    "('ch, 'e) env \<Rightarrow> ConnectionManager \<times> 'ch link \<Rightarrow> 'io event \<Rightarrow> (ConnectionManager \<times> 'ch link) option" where
  "task_next E (m, l) (EvInsert md) =
     (if phase l = Spawned
      then (case manager_insert m (peer_addr l) md of
          (Ok _, m') \<Rightarrow> Some (m', l\<lparr>phase := Registered\<rparr>)
        | (Err _, m') \<Rightarrow> Some (m', l\<lparr>phase := Refused\<rparr>)
        | (Panic _, m') \<Rightarrow> None)
      else None)"
| "task_next E (m, l) (EvHandshake ok) =
     (if phase l = Registered
      then (case first_frame E (peer_addr l) of
          Ok b \<Rightarrow> Some (m, l\<lparr>phase := Running, sent := snd (record_send ok (sent l) b)\<rparr>)
        | Panic _ \<Rightarrow> Some (m, l\<lparr>phase := Crashed\<rparr>)
        | Err _ \<Rightarrow> None)
      else None)"
| "task_next E (m, l) (EvRead item) =
     (if phase l = Running
      then (case read_iteration (ch_try_send E) item (chan l) of
          (Continue, ch') \<Rightarrow> Some (m, l\<lparr>chan := ch'\<rparr>)
        | (Return r, ch') \<Rightarrow> Some (m, l\<lparr>phase := Draining, chan := ch_close E ch'\<rparr>))
      else None)"
| "task_next E (m, l) (EvSelect sel ok) =
     (if phase l = Running
      then (case select_next E (listens l) (chan l) sel of
          None \<Rightarrow> None
        | Some ch' \<Rightarrow>
            (case handler_iteration (codec_ser E) (codec_de E) (record_send ok) sel (sent l) of
               (Continue, sent') \<Rightarrow> Some (m, l\<lparr>chan := ch', sent := sent', listens := True\<rparr>)
             | (Return r, sent') \<Rightarrow>
                 Some (m, if panics r then l\<lparr>phase := Crashed, chan := ch', sent := sent'\<rparr>
                          else l\<lparr>phase := Draining, chan := ch_close E ch', sent := sent'\<rparr>)))
      else None)"
| "task_next E (m, l) EvLagged =
     (if phase l = Running \<and> listens l then Some (m, l\<lparr>listens := False\<rparr>) else None)"
| "task_next E (m, l) EvCloseWriter =
     (if phase l = Draining then Some (m, l\<lparr>phase := WriterClosed\<rparr>) else None)"
| "task_next E (m, l) EvRemove =
     (if phase l = WriterClosed
      then Some (snd (manager_remove m (peer_addr l)), l\<lparr>phase := Finished\<rparr>)
      else None)"

lemma select_ready_next: "select_ready E bc ch sel ch' \<longleftrightarrow> select_next E bc ch sel = Some ch'"
  by (cases sel) (auto split: prod.splits recv_poll.splits option.splits)

lemma first_frame_no_Err: "first_frame E a \<noteq> Err e"
  by (simp add: first_frame_def outcome_simps)

lemma manager_insert_no_Panic: "manager_insert m a md \<noteq> (Panic p, m')"
  by (simp add: manager_insert_def Let_def)

lemma task_next_step: "task_next E s ev = Some t \<Longrightarrow> task_step E s ev t"
proof (induction E s ev rule: task_next.induct)
  case (1 E m l md)
  then show ?case
    by (auto split: if_splits prod.splits outcome.splits intro: task_step.refuse task_step.register)
next
  case (2 E m l ok)
  then show ?case
    by (auto split: if_splits outcome.splits intro: task_step.handshake_panic)
      (rule task_step.handshake, auto simp: record_send_def)
next
  case (3 E m l item)
  then show ?case
    by (auto split: if_splits prod.splits flow.splits intro: task_step.read_on task_step.read_ends)
next
  case (4 E m l sel ok)
  then show ?case
    by (auto split: if_splits prod.splits flow.splits option.splits simp flip: select_ready_next
        intro: task_step.handle_on task_step.handle_ends task_step.handle_panic)
next
  case (5 E m l)
  then show ?case by (auto split: if_splits intro: task_step.lag)
next
  case (6 E m l)
  then show ?case by (auto split: if_splits intro: task_step.close_writer)
next
  case (7 E m l)
  then show ?case
    by (auto split: if_splits intro!: task_step.remove [OF _ prod.collapse [symmetric]])
qed

lemma task_step_next: "task_step E s ev t \<Longrightarrow> task_next E s ev = Some t"
  by (induction rule: task_step.induct) (auto simp: select_ready_next record_send_def)

lemma task_step_iff: "task_step E s ev t \<longleftrightarrow> task_next E s ev = Some t"
  using task_next_step task_step_next by blast

interpretation task: computed_steps "task_step E" "task_next E" for E
  by unfold_locales (rule task_step_iff)

section \<open>Ending a task\<close>

text \<open>How a task that is still going can come to its end, and what it leaves in the table.\<close>

lemma remove_entry:
  assumes "manager_wf m"
  shows "manager_get (snd (manager_remove m a)) = (manager_get m)(a := None)"
  using assms by (cases "manager_remove m a") (auto elim: mgr.rem_cases)

definition cleaned_up :: "ConnectionManager \<times> 'ch link \<Rightarrow> ConnectionManager \<times> 'ch link \<Rightarrow> bool" where
  "cleaned_up s t \<longleftrightarrow>
     (phase (snd t) = Refused \<and> fst t = fst s) \<or>
     (phase (snd t) = Finished \<and>
      manager_get (fst t) = (manager_get (fst s))(peer_addr (snd s) := None))"

definition can_finish :: "('ch, 'e) env \<Rightarrow> ConnectionManager \<times> 'ch link \<Rightarrow> nat \<Rightarrow> bool" where
  "can_finish E s n \<longleftrightarrow>
     (\<exists>evs :: unit event list. \<exists>t. task_run E s evs t \<and> length evs \<le> n \<and> cleaned_up s t)"

lemma can_finishI:
  "task_run E s (evs :: unit event list) t \<Longrightarrow> length evs \<le> n \<Longrightarrow> cleaned_up s t \<Longrightarrow> can_finish E s n"
  unfolding can_finish_def by blast

lemma finish_closed:
  assumes "phase l = WriterClosed" and "manager_wf m"
  shows "can_finish E (m, l) 1"
  by (rule can_finishI [where evs = "[EvRemove]"])
    (auto simp: task.run_iff cleaned_up_def remove_entry assms)

lemma finish_draining:
  assumes "phase l = Draining" and "manager_wf m"
  shows "can_finish E (m, l) 2"
  by (rule can_finishI [where evs = "[EvCloseWriter, EvRemove]"])
    (auto simp: task.run_iff cleaned_up_def remove_entry assms)

lemma finish_running:
  assumes "phase l = Running" and "manager_wf m"
  shows "can_finish E (m, l) 3"
  by (rule can_finishI [where evs = "[EvRead None, EvCloseWriter, EvRemove]"])
    (auto simp: task.run_iff cleaned_up_def remove_entry assms)

lemma first_frame_total:
  assumes "\<And>msg. codec_ser E msg \<noteq> None"
  obtains b where "first_frame E a = Ok b"
proof -
  from assms obtain b where
    "codec_ser E (Handshake \<lparr>message = ''helo'', version = ''0.1.0''\<rparr>) = Some b" by blast
  then have "first_frame E a = Ok b"
    by (simp add: first_frame_def handshake_start_def as_bytes_def)
  with that show ?thesis .
qed

lemma finish_registered:
  assumes "phase l = Registered" and "manager_wf m" and "first_frame E (peer_addr l) = Ok b"
  shows "can_finish E (m, l) 4"
  by (rule can_finishI [where evs = "[EvHandshake False, EvRead None, EvCloseWriter, EvRemove]"])
    (auto simp: task.run_iff cleaned_up_def remove_entry assms)

lemma finish_spawned:
  assumes ph: "phase l = Spawned" and wf: "manager_wf m" and frame: "first_frame E (peer_addr l) = Ok b"
  shows "can_finish E (m, l) 5"
proof -
  let ?md = "\<lparr>created_at = 0\<rparr>"
  obtain r m' where ins: "manager_insert m (peer_addr l) ?md = (r, m')"
    by (cases "manager_insert m (peer_addr l) ?md")
  from ins wf show ?thesis
  proof (cases rule: mgr.ins_cases)
    case full
    with ins ph show ?thesis
      by (intro can_finishI [where evs = "[EvInsert ?md]"]) (auto simp: task.run_iff cleaned_up_def)
  next
    case room
    with ins ph frame show ?thesis
      by (intro can_finishI [where evs =
            "[EvInsert ?md, EvHandshake False, EvRead None, EvCloseWriter, EvRemove]"])
        (auto simp: task.run_iff cleaned_up_def remove_entry)
  qed
qed

lemma finish_any:
  assumes total: "\<And>msg. codec_ser E msg \<noteq> None"
    and wf: "manager_wf m" and going: "\<not> terminated (phase l)"
  shows "can_finish E (m, l) 5"
proof -
  obtain b where frame: "first_frame E (peer_addr l) = Ok b"
    using first_frame_total [OF total] by blast
  have le: "can_finish E (m, l) n \<Longrightarrow> n \<le> 5 \<Longrightarrow> can_finish E (m, l) 5" for n
    by (fastforce simp: can_finish_def)
  show ?thesis
    using going wf frame
    by (cases "phase l")
      (auto simp: terminated_def intro: finish_spawned le [OF finish_registered] le [OF finish_running]
        le [OF finish_draining] le [OF finish_closed])
qed

section \<open>Properties\<close>

text \<open>A concrete environment: the sample codec and the bounded queue.\<close>

definition sample_env :: "(queue, string) env" where
  "sample_env =
     \<lparr>codec_ser = sample_ser, codec_de = sample_de, ch_new = queue_create,
      ch_try_send = queue_try_send, ch_recv = queue_recv, ch_close = queue_close\<rparr>"

definition sample_link :: "nat \<Rightarrow> queue link" where
  "sample_link n = \<lparr>peer_addr = V4 127 0 0 1 8080, phase = Spawned, chan = queue_new n, sent = [],
     listens = True\<rparr>"

definition sample_events :: "unit event list" where
  "sample_events =
     [EvInsert \<lparr>created_at = 0\<rparr>, EvHandshake True, EvRead (Some (Inr ping_frame)),
      EvRead (Some (Inr ping_frame)), EvSelect (FromChannel ping_frame) True, EvRead None,
      EvCloseWriter, EvRemove]"

lemma sample_ops: "channel_ops sample_env items shut size_limit"
  by (simp add: channel_ops_def sample_env_def queue.mpsc_axioms)

lemma sample_run:
  "run_fun (task_next sample_env) sample_events (manager_new 1, sample_link 2) =
     Some (manager_new 1, sample_link 2\<lparr>phase := Finished, sent := [hello_frame, pong_frame],
       chan := \<lparr>items = [ping_frame], size_limit = 2, shut = True\<rparr>\<rparr>)"
  by (simp add: sample_events_def sample_env_def sample_link_def manager_defs map_len_def queue_defs
      first_frame_def handshake_start_def as_bytes_def record_send_def read_iteration_def
      handler_iteration_def handle_received_def from_bytes_def ping_response_for_received_def
      sample_codec_defs)

lemma sample_reaches:
  "task_run sample_env (manager_new 1, sample_link 2) sample_events
     (manager_new 1, sample_link 2\<lparr>phase := Finished, sent := [hello_frame, pong_frame],
       chan := \<lparr>items = [ping_frame], size_limit = 2, shut = True\<rparr>\<rparr>)"
  by (simp add: task.run_iff sample_run)

text \<open>
  The task \<open>start\<close> goes through its phases in one order: it registers once, sends the
  handshake once, then reads and handles in any interleaving, then closes the writer, then
  removes itself, and nothing happens after that; a task that was refused did nothing but ask.
  So every registration is matched by exactly one removal when the task ends.
\<close>

theorem task_events_in_order:
  assumes "task_run E (m, l) evs (m', l')" and "phase l = Spawned"
  shows "task_shape (phase l') evs"
  using run_shape [OF link_runI [OF assms(1)]] assms(2) by simp

lemma task_events_in_order_witness:
  "task_shape Finished sample_events"
  using task_events_in_order [OF sample_reaches] by (simp add: sample_link_def)

text \<open>
  What the peer has received is determined by the events: the handshake's frame first (when
  its send succeeded), then for each handled message its answer and for each broadcast its
  payload, in the order the handler took them, without loss, repetition or reordering.
\<close>

theorem task_output_in_order:
  assumes "task_run E (m, l) evs (m', l')"
  shows "sent l' = sent l @ concat (map (event_output E (peer_addr l)) evs)"
  using run_output [OF link_runI [OF assms]] by simp

lemma task_output_in_order_witness:
  "concat (map (event_output sample_env (V4 127 0 0 1 8080)) sample_events) =
     [hello_frame, pong_frame]"
  using task_output_in_order [OF sample_reaches] by (simp add: sample_link_def)

text \<open>
  Messages go through the channel in order and none is lost while the task runs: what was
  handled is a prefix of what was read, the rest is exactly what the channel still holds, and
  the channel never holds more than its capacity, at any point of any interleaving of the two
  loops. Only messages still buffered when the task ends are dropped.
\<close>

theorem messages_through_in_order:
  assumes ops: "channel_ops E buffered is_closed limit"
    and run: "task_run E (m, l) evs (m', l')"
    and start: "phase l = Spawned" "buffered (chan l) = []"
  shows "(\<exists>rest. reads evs = handled evs @ rest \<and>
            (phase l' \<le> Running \<longrightarrow> rest = buffered (chan l'))) \<and>
         length (buffered (chan l')) \<le> limit (chan l)"
  using run_flow [OF ops link_runI [OF run]] run_limit [OF ops link_runI [OF run]] start by simp

lemma messages_through_in_order_witness:
  "\<exists>rest. reads sample_events = handled sample_events @ rest"
  using messages_through_in_order [OF sample_ops sample_reaches]
  by (auto simp: sample_link_def queue_new_def)

text \<open>
  No step of a connection task panics, provided the serializer does not fail: the two
  \<open>unwrap\<close>s of \<open>start\<close> succeed, and the handler's \<open>select!\<close>, which has no \<open>else\<close> branch, is
  never left without an enabled branch, because the channel stays open as long as the two
  loops run.
\<close>

theorem task_never_panics:
  assumes ops: "channel_ops E buffered is_closed limit" and total: "\<And>msg. codec_ser E msg \<noteq> None"
    and run: "task_run E (m, l) evs (m', l')"
    and start: "phase l = Spawned" "\<not> is_closed (chan l)"
  shows "phase l' \<noteq> Crashed"
proof -
  have keep: "preserved (task_step E) (\<lambda>s. chan_open is_closed (snd s) \<and> phase (snd s) \<noteq> Crashed)"
    by (rule preserved.intro) (metis step_chan_open [OF ops] step_no_crash [OF ops total])
  from preserved.run_keeps [OF this run] start show ?thesis by (simp add: chan_open_def)
qed

lemma task_never_panics_witness:
  "\<exists>l'. task_run sample_env (manager_new 1, sample_link 2) sample_events (manager_new 1, l') \<and>
     phase l' \<noteq> Crashed"
  by (intro exI conjI, rule sample_reaches, rule task_never_panics [OF sample_ops _ sample_reaches])
    (simp_all add: sample_env_def sample_ser_total sample_link_def queue_new_def)

text \<open>
  From every point of its life a connection task can end within five events, when its stream ends
  and sends fail. When it then ends, its own address is gone from the table and every other entry
  is as it was; if it was refused instead, the table is untouched.
\<close>

theorem task_can_always_finish:
  assumes "\<And>msg. codec_ser E msg \<noteq> None" and "manager_wf m" and "\<not> terminated (phase l)"
  shows "\<exists>evs :: unit event list. \<exists>m' l'. task_run E (m, l) evs (m', l') \<and> length evs \<le> 5 \<and>
    (phase l' = Refused \<and> m' = m \<or>
     phase l' = Finished \<and> manager_get m' = (manager_get m)(peer_addr l := None))"
  using finish_any [OF assms] by (auto simp: can_finish_def cleaned_up_def)

lemma task_can_always_finish_witness:
  "\<exists>evs :: unit event list. \<exists>m' l'.
     task_run sample_env (manager_new 1, sample_link 2) evs (m', l') \<and> length evs \<le> 5"
  using task_can_always_finish [of "sample_env" "manager_new 1" "sample_link 2"]
  by (auto simp: sample_env_def sample_ser_total sample_link_def terminated_def manager_wf_def
      manager_new_def)

text \<open>
  After its broadcast receiver lagged, a connection task forwards nothing to its peer until
  that peer sends a message: however long the run and whatever is broadcast meanwhile, without
  a handled message not one more frame is sent and the branch stays disabled. The message that
  is then handled without error enables the branch again.
\<close>

theorem lagged_task_waits_for_its_peer:
  fixes evs :: "'io event list"
  assumes "task_run E (m, l) evs (m', l')" and "phase l = Running" and "\<not> listens l"
    and "handled evs = []"
  shows "sent l' = sent l \<and> \<not> listens l' \<and>
    (\<forall>msg ok m2 l2. task_step E (m', l') (EvSelect (FromChannel msg) ok :: 'io event) (m2, l2) \<and>
       phase l2 = Running \<longrightarrow> listens l2)"
proof (intro conjI allI impI)
  show "sent l' = sent l" "\<not> listens l'"
    using run_deaf [OF link_runI [OF assms(1)]] assms(2-4) by simp_all
next
  fix msg ok m2 l2
  assume "task_step E (m', l') (EvSelect (FromChannel msg) ok :: 'io event) (m2, l2) \<and> phase l2 = Running"
  then show "listens l2" using step_hears_again [of E "(m', l')" _ "(m2, l2)"] by fastforce
qed

lemma lagged_task_waits_for_its_peer_witness:
  "\<exists>m' l'. task_run sample_env (manager_new 1, sample_link 2\<lparr>phase := Running, listens := False\<rparr>)
     [EvRead (Some (Inr ping_frame)) :: unit event] (m', l') \<and> sent l' = [] \<and> \<not> listens l'"
proof -
  obtain m' l' where run: "task_run sample_env (manager_new 1, sample_link 2\<lparr>phase := Running, listens := False\<rparr>)
     [EvRead (Some (Inr ping_frame)) :: unit event] (m', l')"
    unfolding task.run_iff by (simp add: sample_env_def sample_link_def queue_defs read_iteration_def)
  from conjunct1 [OF lagged_task_waits_for_its_peer [OF run]]
    conjunct1 [OF conjunct2 [OF lagged_task_waits_for_its_peer [OF run]]]
  have "sent l' = [] \<and> \<not> listens l'"
    by (simp add: sample_link_def handled_def)
  with run show ?thesis by blast
qed

end
