(* ===== verification/Broadcast.thy ===== *)
theory Broadcast
  imports Prelude
begin

text \<open>
  The broadcast channel from the heartbeat task to all connections, tokio's \<open>broadcast\<close>: a
  parameter of the model. The locale \<open>broadcast_channel\<close> states the documented behaviour the
  code relies on, in terms of everything that was ever sent: a receiver is a position in that
  sequence, a slow receiver is told that it lagged and moves up to the oldest value still kept.
  The locale \<open>broadcast\<close> adds the creation of a channel. A log with a window interprets both.
\<close>

section \<open>The laws\<close>

text \<open>
  What polling \<open>Receiver::recv\<close> gives: nothing yet, a value, or the number of values missed.
  The channel is never closed here: main keeps a sender as long as the process runs.
\<close>

datatype bc_poll = Quiet | Received bytes | Lagged u64

locale broadcast_channel =
  fixes send :: "'b \<Rightarrow> bytes \<Rightarrow> (bytes + usize) \<times> 'b"
    and subscribe :: "'b \<Rightarrow> 'r \<times> 'b"
    and recv :: "'b \<Rightarrow> 'r \<Rightarrow> bc_poll \<times> 'r"
    and unsubscribe :: "'b \<Rightarrow> 'r \<Rightarrow> 'b"
    and log :: "'b \<Rightarrow> bytes list"
    and receivers :: "'b \<Rightarrow> nat"
    and pos :: "'r \<Rightarrow> nat"
    and limit :: "'b \<Rightarrow> nat"
  assumes send_none: "receivers b = 0 \<Longrightarrow> send b v = (Inl v, b)"
    and send_some:
      "0 < receivers b \<Longrightarrow> \<exists>n b'. send b v = (Inr n, b') \<and> log b' = log b @ [v] \<and>
         receivers b' = receivers b \<and> limit b' = limit b"
    and subscribe_fresh:
      "subscribe b = (r, b') \<Longrightarrow> pos r = length (log b) \<and> log b' = log b \<and>
         receivers b' = Suc (receivers b) \<and> limit b' = limit b"
    and unsubscribe_drops:
      "log (unsubscribe b r) = log b \<and> receivers (unsubscribe b r) = receivers b - 1 \<and>
       limit (unsubscribe b r) = limit b"
    and recv_quiet: "pos r = length (log b) \<Longrightarrow> recv b r = (Quiet, r)"
    and recv_kept:
      "pos r < length (log b) \<Longrightarrow> length (log b) \<le> pos r + limit b \<Longrightarrow>
       \<exists>r'. recv b r = (Received (log b ! pos r), r') \<and> pos r' = Suc (pos r)"
    and recv_lagged:
      "pos r + limit b < length (log b) \<Longrightarrow>
       \<exists>k r'. recv b r = (Lagged k, r') \<and> pos r' = length (log b) - limit b"
begin

lemma send_cases [consumes 1, case_names failed sent]:
  assumes "send b v = (r, b')"
  obtains "r = Inl v" "b' = b" "receivers b = 0"
    | n where "r = Inr n" "log b' = log b @ [v]" "receivers b' = receivers b" "0 < receivers b"
        "limit b' = limit b"
  using assms send_none [of b v] send_some [of b v] by (cases "receivers b = 0") auto

text \<open>A receiver that is not ahead of the channel gets one of three answers.\<close>

lemma recv_cases [consumes 2, case_names quiet kept lagged]:
  assumes "recv b r = (poll, r')" and "pos r \<le> length (log b)"
  obtains "poll = Quiet" "r' = r" "pos r = length (log b)"
    | "poll = Received (log b ! pos r)" "pos r < length (log b)"
        "pos r' = Suc (pos r)" "length (log b) \<le> pos r + limit b"
    | k where "poll = Lagged k" "pos r + limit b < length (log b)"
        "pos r' = length (log b) - limit b"
proof (cases "pos r + limit b < length (log b)")
  case True
  with recv_lagged [OF True] assms(1) that(3) show ?thesis by auto
next
  case False
  show ?thesis
  proof (cases "pos r = length (log b)")
    case True
    with recv_quiet [OF True] assms(1) that(1) show ?thesis by simp
  next
    case ahead: False
    then have "pos r < length (log b)" using assms(2) by simp
    with recv_kept [OF this] False assms(1) that(2) show ?thesis by auto
  qed
qed

lemma recv_position:
  assumes "recv b r = (poll, r')" and "pos r \<le> length (log b)"
  shows "pos r \<le> pos r' \<and> pos r' \<le> length (log b)"
  using assms by (cases rule: recv_cases) auto

end

text \<open>\<open>broadcast::channel\<close>: it panics on a capacity of zero, and comes with one receiver.\<close>

locale broadcast =
  broadcast_channel send subscribe recv unsubscribe log receivers pos limit
  for send :: "'b \<Rightarrow> bytes \<Rightarrow> (bytes + usize) \<times> 'b"
    and subscribe :: "'b \<Rightarrow> 'r \<times> 'b"
    and recv :: "'b \<Rightarrow> 'r \<Rightarrow> bc_poll \<times> 'r"
    and unsubscribe :: "'b \<Rightarrow> 'r \<Rightarrow> 'b"
    and log :: "'b \<Rightarrow> bytes list"
    and receivers :: "'b \<Rightarrow> nat"
    and pos :: "'r \<Rightarrow> nat"
    and limit :: "'b \<Rightarrow> nat" +
  fixes create :: "usize \<Rightarrow> ('b \<times> 'r, string) outcome"
  assumes create_zero: "panics (create 0)"
    and create_no_err: "create n \<noteq> Err e"
    and create_fresh:
      "create n = Ok (b, r) \<Longrightarrow> log b = [] \<and> receivers b = 1 \<and> pos r = 0 \<and> unat n \<le> limit b"
begin

text \<open>Dropping the receiver that came with the channel leaves nobody to send to.\<close>

lemma first_receiver_dropped:
  assumes "create n = Ok (b, r)"
  shows "receivers (unsubscribe b r) = 0 \<and> log (unsubscribe b r) = []"
  using create_fresh [OF assms] unsubscribe_drops [of b r] by simp

lemma send_after_creation:
  assumes "create n = Ok (b, r)"
  shows "send (unsubscribe b r) v = (Inl v, unsubscribe b r)"
  using first_receiver_dropped [OF assms] by (simp add: send_none)

end

section \<open>A log with a window\<close>

record sent_log =
  sent_values :: "bytes list"
  window :: nat
  receiver_count :: nat

definition log_create :: "usize \<Rightarrow> (sent_log \<times> nat, string) outcome" where
  "log_create n =
     (if n = 0 then Panic ''broadcast channel capacity cannot be zero''
      else Ok (\<lparr>sent_values = [], window = unat n, receiver_count = 1\<rparr>, 0))"

definition log_send :: "sent_log \<Rightarrow> bytes \<Rightarrow> (bytes + usize) \<times> sent_log" where
  "log_send b v =
     (if receiver_count b = 0 then (Inl v, b)
      else (Inr (word_of_nat (receiver_count b)), b\<lparr>sent_values := sent_values b @ [v]\<rparr>))"

definition log_subscribe :: "sent_log \<Rightarrow> nat \<times> sent_log" where
  "log_subscribe b = (length (sent_values b), b\<lparr>receiver_count := Suc (receiver_count b)\<rparr>)"

definition log_unsubscribe :: "sent_log \<Rightarrow> nat \<Rightarrow> sent_log" where
  "log_unsubscribe b r = b\<lparr>receiver_count := receiver_count b - 1\<rparr>"

definition log_recv :: "sent_log \<Rightarrow> nat \<Rightarrow> bc_poll \<times> nat" where
  "log_recv b r =
     (let n = length (sent_values b) in
      if r + window b < n then (Lagged (word_of_nat (n - window b - r)), n - window b)
      else if r < n then (Received (sent_values b ! r), Suc r)
      else (Quiet, r))"

lemmas log_defs = log_send_def log_subscribe_def log_unsubscribe_def log_recv_def

interpretation logged: broadcast_channel log_send log_subscribe log_recv log_unsubscribe
    sent_values receiver_count "\<lambda>r. r" window
  by unfold_locales (auto simp: log_defs Let_def)

interpretation log_channel: broadcast log_send log_subscribe log_recv log_unsubscribe
    sent_values receiver_count "\<lambda>r. r" window log_create
  by unfold_locales (auto simp: log_create_def split: if_splits)

end
