(* ===== verification/Timer.thy ===== *)
theory Timer
  imports Prelude
begin

text \<open>
  The interval timer of the heartbeat task, tokio's \<open>time::Interval\<close>. It is a parameter of the
  model; the locale \<open>timer\<close> has its documented laws with the default \<open>MissedTickBehavior::Burst\<close>,
  \<open>interval_timer\<close> adds its creation. The clock counts milliseconds from the moment the
  interval was made. What a timer does over time is a step relation of its own, on which the
  bounds are proved once.
\<close>

section \<open>The laws\<close>

text \<open>
  \<open>ready now iv\<close>: the future of \<open>tick()\<close> completes at time \<open>now\<close>. \<open>tick\<close> is what its completion
  does to the interval, \<open>reset now\<close> what \<open>reset()\<close> does: the next tick is due one period after
  the call.
\<close>

locale timer =
  fixes ready :: "nat \<Rightarrow> 'iv \<Rightarrow> bool" and tick :: "'iv \<Rightarrow> 'iv" and rst :: "nat \<Rightarrow> 'iv \<Rightarrow> 'iv"
    and due :: "'iv \<Rightarrow> nat" and period :: "'iv \<Rightarrow> nat"
  assumes ready_iff: "ready now iv \<longleftrightarrow> due iv \<le> now"
    and due_tick: "due (tick iv) = due iv + period iv"
    and due_reset: "due (rst now iv) = now + period iv"
    and period_keeps: "period (tick iv) = period iv" "period (rst now iv) = period iv"

text \<open>\<open>time::interval(Duration::from_millis(d))\<close> panics on a zero period; its first tick is due at once.\<close>

locale interval_timer = timer ready tick rst due period
  for ready :: "nat \<Rightarrow> 'iv \<Rightarrow> bool" and tick rst due period +
  fixes create :: "u64 \<Rightarrow> ('iv, string) outcome"
  assumes create_zero: "panics (create 0)"
    and create_due: "d \<noteq> 0 \<Longrightarrow> \<exists>iv. create d = Ok iv \<and> due iv = 0 \<and> period iv = unat d"

section \<open>A timer over time\<close>

datatype timer_event = Pass nat | Fire | Restart

fun timer_next ::
    "(nat \<Rightarrow> 'iv \<Rightarrow> bool) \<Rightarrow> ('iv \<Rightarrow> 'iv) \<Rightarrow> (nat \<Rightarrow> 'iv \<Rightarrow> 'iv) \<Rightarrow> nat \<times> 'iv \<Rightarrow> timer_event
     \<Rightarrow> (nat \<times> 'iv) option" where
  "timer_next ready tick rst (now, iv) (Pass d) = Some (now + d, iv)"
| "timer_next ready tick rst (now, iv) Fire = (if ready now iv then Some (now, tick iv) else None)"
| "timer_next ready tick rst (now, iv) Restart = Some (now, rst now iv)"

fun passes :: "timer_event \<Rightarrow> nat" where
  "passes (Pass d) = d"
| "passes Fire = 0"
| "passes Restart = 0"

definition elapsed :: "timer_event list \<Rightarrow> nat" where
  "elapsed evs = sum_list (map passes evs)"

lemma elapsed_simps [simp]:
  "elapsed [] = 0" "elapsed (ev # evs) = passes ev + elapsed evs"
  "elapsed (evs @ evs') = elapsed evs + elapsed evs'"
  by (simp_all add: elapsed_def)

text \<open>
  Restarted in time: from a moment where \<open>left\<close> milliseconds are left until the next tick, less than
  that passes before the next restart, and less than a period \<open>p\<close> between two restarts.
\<close>

fun restarted_in_time :: "nat \<Rightarrow> nat \<Rightarrow> timer_event list \<Rightarrow> bool" where
  "restarted_in_time p left [] = True"
| "restarted_in_time p left (Pass d # evs) = (d < left \<and> restarted_in_time p (left - d) evs)"
| "restarted_in_time p left (Fire # evs) = restarted_in_time p left evs"
| "restarted_in_time p left (Restart # evs) = restarted_in_time p p evs"

context timer
begin

abbreviation next_state :: "nat \<times> 'iv \<Rightarrow> timer_event \<Rightarrow> (nat \<times> 'iv) option" where
  "next_state \<equiv> timer_next ready tick rst"

text \<open>The next tick is never more than a period away, and never moves to an earlier time.\<close>

lemma step_due:
  assumes "next_state (now, iv) ev = Some (now', iv')" and "due iv \<le> now + period iv"
  shows "now' = now + passes ev \<and> period iv' = period iv \<and> due iv' \<le> now' + period iv' \<and>
    due iv + (if ev = Fire then period iv else 0) \<le> due iv'"
  using assms by (cases ev) (auto simp: ready_iff due_tick due_reset period_keeps split: if_splits)

lemma run_due:
  "run_fun next_state evs (now, iv) = Some (now', iv') \<Longrightarrow> due iv \<le> now + period iv \<Longrightarrow>
   now' = now + elapsed evs \<and> period iv' = period iv \<and> due iv' \<le> now' + period iv \<and>
   due iv + count_list evs Fire * period iv \<le> due iv'"
proof (induction evs arbitrary: now iv)
  case (Cons ev evs)
  then obtain now1 iv1 where step: "next_state (now, iv) ev = Some (now1, iv1)"
    and rest: "run_fun next_state evs (now1, iv1) = Some (now', iv')"
    by (auto simp: bind_eq_Some_conv)
  note here = step_due [OF step Cons.prems(2)]
  with Cons.IH [OF rest] show ?case by (auto split: if_splits)
qed simp

text \<open>The number of ticks is bounded by the time that passed.\<close>

lemma ticks_bounded:
  assumes "run_fun next_state evs (now, iv) = Some (now', iv')" and "now \<le> due iv" "due iv \<le> now + period iv"
  shows "count_list evs Fire * period iv \<le> elapsed evs + period iv"
  using run_due [OF assms(1,3)] assms(2) by linarith

text \<open>A timer that is always restarted in time never ticks.\<close>

lemma starved:
  "run_fun next_state evs (now, iv) = Some (now', iv') \<Longrightarrow> due iv = now + left \<Longrightarrow> 0 < left \<Longrightarrow>
   0 < period iv \<Longrightarrow> restarted_in_time (period iv) left evs \<Longrightarrow> Fire \<notin> set evs \<and> now' < due iv'"
proof (induction evs arbitrary: now iv left)
  case (Cons ev evs)
  then obtain now1 iv1 where step: "next_state (now, iv) ev = Some (now1, iv1)"
    and rest: "run_fun next_state evs (now1, iv1) = Some (now', iv')"
    by (auto simp: bind_eq_Some_conv)
  show ?case
  proof (cases ev)
    case (Pass d)
    with step Cons.prems rest Cons.IH [OF rest, of "left - d"] show ?thesis by auto
  next
    case Fire
    with step Cons.prems show ?thesis by (simp add: ready_iff)
  next
    case Restart
    with step Cons.prems Cons.IH [OF rest, of "period iv"] show ?thesis
      by (auto simp: due_reset period_keeps)
  qed
qed simp

text \<open>A timer that is left alone for a period has a tick ready, unless it ticked meanwhile.\<close>

lemma ticks_eventually:
  "run_fun next_state evs (now, iv) = Some (now', iv') \<Longrightarrow> due iv \<le> now + left \<Longrightarrow>
   left \<le> elapsed evs \<Longrightarrow> Restart \<notin> set evs \<Longrightarrow> Fire \<notin> set evs \<Longrightarrow> ready now' iv'"
proof (induction evs arbitrary: now iv left)
  case (Cons ev evs)
  then obtain now1 iv1 where step: "next_state (now, iv) ev = Some (now1, iv1)"
    and rest: "run_fun next_state evs (now1, iv1) = Some (now', iv')"
    by (auto simp: bind_eq_Some_conv)
  from Cons.prems step rest show ?case
    by (cases ev) (auto intro: Cons.IH [of _ _ "left - passes ev"])
qed (simp add: ready_iff)

end

section \<open>A concrete timer\<close>

record Interval =
  due_at :: nat
  every :: nat

definition interval_ready :: "nat \<Rightarrow> Interval \<Rightarrow> bool" where
  "interval_ready now iv \<longleftrightarrow> due_at iv \<le> now"

definition interval_tick :: "Interval \<Rightarrow> Interval" where
  "interval_tick iv = iv\<lparr>due_at := due_at iv + every iv\<rparr>"

definition interval_reset :: "nat \<Rightarrow> Interval \<Rightarrow> Interval" where
  "interval_reset now iv = iv\<lparr>due_at := now + every iv\<rparr>"

definition interval_new :: "u64 \<Rightarrow> (Interval, string) outcome" where
  "interval_new d =
     (if d = 0 then Panic ''period must be non-zero'' else Ok \<lparr>due_at = 0, every = unat d\<rparr>)"

lemmas interval_defs = interval_ready_def interval_tick_def interval_reset_def interval_new_def

interpretation burst: interval_timer interval_ready interval_tick interval_reset due_at every interval_new
  by unfold_locales (simp_all add: interval_defs)

end
