(* ===== verification/Heartbeat.thy ===== *)
theory Heartbeat
  imports Lifecycle Broadcast Timer
begin

text \<open>
  \<open>start_heartbeat\<close> (node/connection/src/lib.rs): the message it prepares from the bind
  address, and one round of the \<open>select!\<close> of the task it spawns. The broadcast channel to all
  connections (theory Broadcast) and the interval (theory Timer) are tokio's: their operations
  are parameters.
\<close>

section \<open>The message\<close>

text \<open>
  The frame sent at every tick. \<open>resolve\<close> is \<open>to_socket_addrs\<close> (None: it failed) and \<open>now\<close> what
  \<open>SystemTime::now()\<close> returned in \<open>HeartbeatMessage::start\<close>, once, when the node started.
\<close>

definition heartbeat_message ::
    "(string \<Rightarrow> SocketAddr list option) \<Rightarrow> (Message \<Rightarrow> bytes option) \<Rightarrow> SystemTime \<Rightarrow> string
     \<Rightarrow> (bytes, 'x) outcome" where
  "heartbeat_message resolve ser now addr =
     and_then (unwrap (resolve addr)) (\<lambda>addrs.
     and_then (unwrap (fst (next_item addrs))) (\<lambda>socket_addr.
     and_then (unwrap (heartbeat_start now socket_addr)) (\<lambda>msg.
     and_then (as_bytes ser msg) (\<lambda>b. unwrap b))))"

text \<open>
  \<open>start_heartbeat\<close> up to the spawn of its task: the frame, and the interval of \<open>duration\<close>
  milliseconds (\<open>iv_new\<close>, which may panic). What it returns besides is the \<open>Notify\<close>, without a
  permit.
\<close>

definition start_heartbeat ::
    "(u64 \<Rightarrow> ('iv, 'x) outcome) \<Rightarrow> (string \<Rightarrow> SocketAddr list option) \<Rightarrow> (Message \<Rightarrow> bytes option)
     \<Rightarrow> SystemTime \<Rightarrow> string \<Rightarrow> u64 \<Rightarrow> (bytes \<times> 'iv, 'x) outcome" where
  "start_heartbeat iv_new resolve ser now addr duration =
     and_then (heartbeat_message resolve ser now addr) (\<lambda>message.
     and_then (iv_new duration) (\<lambda>interval. Ok (message, interval)))"

lemma heartbeat_message_no_Err [simp]: "heartbeat_message resolve ser now addr \<noteq> Err e"
  by (simp add: heartbeat_message_def outcome_simps)

lemma heartbeat_message_Ok:
  "heartbeat_message resolve ser now addr = Ok b \<longleftrightarrow>
     (\<exists>a rest. resolve addr = Some (a # rest) \<and>
        ser (Heartbeat \<lparr>from_addr = addr_to_string a, time = now\<rparr>) = Some b)"
  by (cases "resolve addr"; cases "the (resolve addr)")
    (auto simp: heartbeat_message_def outcome_simps heartbeat_start_def)

section \<open>One round\<close>

text \<open>
  The branch \<open>select!\<close> takes: the interval ticked, or the notification came. \<open>tick\<close> is what the
  completion of \<open>interval.tick()\<close> does to the interval, \<open>rst\<close> what \<open>interval.reset()\<close> does at the
  current time.
\<close>

datatype wakeup = Tick | Notified

definition heartbeat_iteration ::
    "('b \<Rightarrow> bytes \<Rightarrow> (bytes + usize) \<times> 'b) \<Rightarrow> ('iv \<Rightarrow> 'iv) \<Rightarrow> ('iv \<Rightarrow> 'iv) \<Rightarrow> ConnectionManager
     \<Rightarrow> bytes \<Rightarrow> wakeup \<Rightarrow> 'b \<times> 'iv \<Rightarrow> flow \<times> 'b \<times> 'iv" where
  "heartbeat_iteration send tick rst manager msg w s =
     (case s of (sender, interval) \<Rightarrow>
        (case w of
           Tick \<Rightarrow>
             if num_connections manager > 0
             then (case send sender msg of
                 (Inr _, sender') \<Rightarrow> (Continue, sender', tick interval)
               | (Inl _, sender') \<Rightarrow>
                   (Return (Panic ''Error sending heartbeat. Quitting.''), sender', tick interval))
             else (Continue, sender, tick interval)
         | Notified \<Rightarrow> (Continue, sender, rst interval)))"

text \<open>How a round ends, over the laws of the broadcast channel.\<close>

context broadcast_channel
begin

lemma iteration_cases [consumes 1, case_names idle sent panicked reset]:
  assumes "heartbeat_iteration send tick rst manager msg w (b, iv) = (flow, b', iv')"
  obtains "w = Tick" "num_connections manager = 0" "flow = Continue" "b' = b" "iv' = tick iv"
    | "w = Tick" "0 < num_connections manager" "0 < receivers b" "flow = Continue"
      "receivers b' = receivers b" "log b' = log b @ [msg]" "limit b' = limit b" "iv' = tick iv"
    | "w = Tick" "0 < num_connections manager" "receivers b = 0"
      "flow = Return (Panic ''Error sending heartbeat. Quitting.'')" "b' = b" "iv' = tick iv"
    | "w = Notified" "flow = Continue" "b' = b" "iv' = rst iv"
proof (cases w)
  case Tick
  show ?thesis
  proof (cases "num_connections manager > 0")
    case True
    obtain r b2 where sending: "send b msg = (r, b2)" by (cases "send b msg")
    then show ?thesis
    proof (cases rule: send_cases)
      case failed
      from assms Tick True sending failed(1)
      have "(Return (Panic ''Error sending heartbeat. Quitting.''), b2, tick iv) = (flow, b', iv')"
        by (simp add: heartbeat_iteration_def)
      with Tick True failed(2,3) that(3) show ?thesis by simp
    next
      case (sent n)
      from assms Tick True sending sent(1) have "(Continue, b2, tick iv) = (flow, b', iv')"
        by (simp add: heartbeat_iteration_def)
      with Tick True sent(2-5) that(2) show ?thesis by simp
    qed
  next
    case False
    then have "num_connections manager = 0" using word_neq_0_conv by blast
    with assms Tick that(1) show ?thesis by (simp add: heartbeat_iteration_def)
  qed
next
  case Notified
  with assms that(4) show ?thesis by (simp add: heartbeat_iteration_def)
qed

lemma iteration_channel:
  assumes "heartbeat_iteration send tick rst manager msg w (b, iv) = (flow, b', iv')"
  shows "receivers b' = receivers b \<and> limit b' = limit b \<and>
    log b' = log b @ (if w = Tick \<and> num_connections manager > 0 \<and> flow = Continue then [msg] else [])"
  using assms by (cases rule: iteration_cases) simp_all

end

section \<open>Properties\<close>

text \<open>
  A heartbeat names its sender and is answered with silence: the frame the task sends at
  every tick is what the serializer makes of the first address the bind address resolves to, as
  the standard library prints it, with the time at which the node started; a peer whose codec
  reads that frame back takes it without sending anything and without closing the connection.
\<close>

theorem heartbeat_names_sender:
  assumes msg: "heartbeat_message resolve ser now bind_addr = Ok b"
    and addr: "resolve bind_addr = Some (a # rest)"
    and codec: "ser (Heartbeat \<lparr>from_addr = addr_to_string a, time = now\<rparr>) = Some b \<Longrightarrow>
      de b = Inr (Heartbeat \<lparr>from_addr = addr_to_string a, time = now\<rparr>)"
  shows "from_bytes de b = Ok (Heartbeat \<lparr>from_addr = addr_to_string a, time = now\<rparr>) \<and>
    handler_iteration ser de (record_send True) (FromChannel b) w = (Continue, w)"
proof -
  from msg addr codec have "de b = Inr (Heartbeat \<lparr>from_addr = addr_to_string a, time = now\<rparr>)"
    by (auto simp: heartbeat_message_Ok)
  then show ?thesis
    by (simp add: handler_iteration_def handle_received_def from_bytes_def
        heartbeat_response_for_received_def)
qed

lemma heartbeat_names_sender_witness:
  "from_bytes (\<lambda>b. Inr (Heartbeat \<lparr>from_addr = ''127.0.0.1:6680'', time = 5\<rparr>) :: unit + Message) [9] =
     Ok (Heartbeat \<lparr>from_addr = addr_to_string (V4 127 0 0 1 6680), time = 5\<rparr>)"
  by (rule conjunct1, rule heartbeat_names_sender
      [where resolve = "\<lambda>_. Some [V4 127 0 0 1 6680]" and ser = "\<lambda>_. Some [9]" and w = "[]"
        and rest = "[]" and bind_addr = "''localhost:6680''"])
    (simp_all add: heartbeat_message_Ok ipv4_to_string_def dec_def radix.simps digit_char_def)

end
