(* ===== verification/Node.thy ===== *)
theory Node
  imports Heartbeat
begin

text \<open>
  The running node: the tasks that node/run/src/main.rs spawns, on the state they share. Main
  itself dials the seeds and then runs \<open>start_listen\<close>; each dialled seed is a \<open>connect\<close> task;
  each established connection is a task of theory Lifecycle; one more task sends heartbeats.
  The shared state is the connection table, the broadcast channel and the \<open>Notify\<close> between
  listener and heartbeat. One event is one step of one task, or time passing; \<open>node_next\<close>
  computes it.
\<close>

section \<open>State\<close>

text \<open>
  Where main is: dialling; in the accept loop, before \<open>notify_one\<close> or waiting in \<open>accept\<close>;
  returned because binding failed; panicked. When main is over, so is the process.
\<close>

datatype listener = NotStarted | Notifying | Accepting | Returned | MainPanicked

text \<open>
  A connect task owns the broadcast receiver main subscribed for it, and hands it to the
  connection task it starts; so every task comes with its receiver.
\<close>

record ('ch, 'b, 'r, 'iv) node =
  manager :: ConnectionManager
  tasks :: "('ch link \<times> 'r) list"
  bcast :: 'b
  to_dial :: "string list"
  dialing :: "(string \<times> 'r) list"
  listener :: listener
  beating :: bool
  interval :: 'iv
  clock :: nat
  permit :: bool

abbreviation links :: "('ch, 'b, 'r, 'iv) node \<Rightarrow> 'ch link list" where
  "links n \<equiv> map fst (tasks n)"

text \<open>
  The libraries, and the values main fixed before it started its tasks: the channel capacity
  \<open>max_pending_messages\<close> and the heartbeat's frame.
\<close>

record ('ch, 'e, 'b, 'r, 'iv) node_env =
  task_env :: "('ch, 'e) env"
  resolve :: "string \<Rightarrow> SocketAddr list option"
  bc_send :: "'b \<Rightarrow> bytes \<Rightarrow> (bytes + usize) \<times> 'b"
  bc_subscribe :: "'b \<Rightarrow> 'r \<times> 'b"
  bc_recv :: "'b \<Rightarrow> 'r \<Rightarrow> bc_poll \<times> 'r"
  bc_unsubscribe :: "'b \<Rightarrow> 'r \<Rightarrow> 'b"
  iv_ready :: "nat \<Rightarrow> 'iv \<Rightarrow> bool"
  iv_tick :: "'iv \<Rightarrow> 'iv"
  iv_reset :: "nat \<Rightarrow> 'iv \<Rightarrow> 'iv"
  pending :: usize
  beat :: bytes

datatype 'io node_event =
    Dial
  | DialDone nat bool
  | ListenBind bool
  | NotifyOne
  | Accept "SocketAddr option"
  | OfTask nat "'io event"
  | Beat wakeup
  | Elapse nat

definition main_running :: "('ch, 'b, 'r, 'iv) node \<Rightarrow> bool" where
  "main_running n \<longleftrightarrow> listener n \<noteq> Returned \<and> listener n \<noteq> MainPanicked"

section \<open>Main and the connect tasks\<close>

text \<open>One iteration of the loop over the seeds: subscribe, and spawn the task.\<close>

definition dial_seed :: "('ch, 'e, 'b, 'r, 'iv) node_env \<Rightarrow> ('ch, 'b, 'r, 'iv) node \<Rightarrow> ('ch, 'b, 'r, 'iv) node option" where
  "dial_seed E n =
     (case to_dial n of
        peer # rest \<Rightarrow>
          (case bc_subscribe E (bcast n) of
             (r, b) \<Rightarrow> Some (n\<lparr>to_dial := rest, dialing := dialing n @ [(peer, r)], bcast := b\<rparr>))
      | [] \<Rightarrow> None)"

text \<open>
  What a connect task makes of its peer: it panics when the TCP connection fails; otherwise it
  resolves the name again and takes the first address, if there is one.
\<close>

definition connect_target ::
    "(string \<Rightarrow> SocketAddr list option) \<Rightarrow> bool \<Rightarrow> string \<Rightarrow> (SocketAddr option, unit) outcome" where
  "connect_target rslv connected peer =
     and_then (expect ''Error connecting to peer'' (if connected then Some () else None)) (\<lambda>_.
       case rslv peer of Some addrs \<Rightarrow> Ok (fst (next_item addrs)) | None \<Rightarrow> Ok None)"

text \<open>A connect task that does not start a connection drops its broadcast receiver.\<close>

definition connect_done ::
    "('ch, 'e, 'b, 'r, 'iv) node_env \<Rightarrow> nat \<Rightarrow> bool \<Rightarrow> ('ch, 'b, 'r, 'iv) node \<Rightarrow> ('ch, 'b, 'r, 'iv) node option" where
  "connect_done E i connected n =
     (if i < length (dialing n)
      then let (peer, r) = dialing n ! i;
               n' = n\<lparr>dialing := take i (dialing n) @ drop (Suc i) (dialing n)\<rparr>;
               dropped = n'\<lparr>bcast := bc_unsubscribe E (bcast n) r\<rparr>
           in Some (case connect_target (resolve E) connected peer of
                Ok (Some addr) \<Rightarrow> (case start_connection (task_env E) addr (pending E) of
                  Ok l \<Rightarrow> n'\<lparr>tasks := tasks n @ [(l, r)]\<rparr>
                | _ \<Rightarrow> dropped)
              | _ \<Rightarrow> dropped)
      else None)"

text \<open>\<open>start_listen\<close>: binding, and the two halves of an iteration of its loop.\<close>

definition listen_bind :: "bool \<Rightarrow> ('ch, 'b, 'r, 'iv) node \<Rightarrow> ('ch, 'b, 'r, 'iv) node option" where
  "listen_bind bound n =
     (if listener n = NotStarted \<and> to_dial n = []
      then Some (n\<lparr>listener := if bound then Notifying else Returned\<rparr>)
      else None)"

definition listen_notify :: "('ch, 'b, 'r, 'iv) node \<Rightarrow> ('ch, 'b, 'r, 'iv) node option" where
  "listen_notify n =
     (if listener n = Notifying then Some (n\<lparr>listener := Accepting, permit := True\<rparr>) else None)"

definition listen_accept ::
    "('ch, 'e, 'b, 'r, 'iv) node_env \<Rightarrow> SocketAddr option \<Rightarrow> ('ch, 'b, 'r, 'iv) node \<Rightarrow> ('ch, 'b, 'r, 'iv) node option" where
  "listen_accept E accepted n =
     (if listener n = Accepting
      then Some (case accepted of
          Some peer_address \<Rightarrow> (case start_connection (task_env E) peer_address (pending E) of
            Ok l \<Rightarrow> (case bc_subscribe E (bcast n) of
              (r, b) \<Rightarrow> n\<lparr>listener := Notifying, tasks := tasks n @ [(l, r)], bcast := b\<rparr>)
          | _ \<Rightarrow> n\<lparr>listener := MainPanicked\<rparr>)
        | None \<Rightarrow> n\<lparr>listener := Notifying\<rparr>)
      else None)"

text \<open>\<open>start_listen\<close> as a whole: what it does next, given what the socket does.\<close>

fun start_listen ::
    "('ch, 'e, 'b, 'r, 'iv) node_env \<Rightarrow> 'io node_event \<Rightarrow> ('ch, 'b, 'r, 'iv) node \<Rightarrow> ('ch, 'b, 'r, 'iv) node option" where
  "start_listen E (ListenBind bound) n = listen_bind bound n"
| "start_listen E NotifyOne n = listen_notify n"
| "start_listen E (Accept accepted) n = listen_accept E accepted n"
| "start_listen E _ n = None"

section \<open>Connection tasks and the heartbeat task\<close>

text \<open>
  A connection task owns its broadcast receiver until it leaves \<open>select!\<close>. Its handler polls the
  receiver in two events: it receives a broadcast, or is told that it lagged.
\<close>

definition holds_receiver :: "'ch link \<Rightarrow> bool" where
  "holds_receiver l \<longleftrightarrow> phase l \<le> Running"

fun poll_broadcast :: "(bc_poll \<times> 'r) \<Rightarrow> 'r \<Rightarrow> 'io event \<Rightarrow> 'r option" where
  "poll_broadcast (poll, r') r (EvSelect (FromBroadcast msg_bytes) ok) =
     (if poll = Received msg_bytes then Some r' else None)"
| "poll_broadcast (poll, r') r EvLagged = (case poll of Lagged k \<Rightarrow> Some r' | _ \<Rightarrow> None)"
| "poll_broadcast polled r _ = Some r"

definition task_event ::
    "('ch, 'e, 'b, 'r, 'iv) node_env \<Rightarrow> nat \<Rightarrow> 'io event \<Rightarrow> ('ch, 'b, 'r, 'iv) node
     \<Rightarrow> ('ch, 'b, 'r, 'iv) node option" where
  "task_event E i ev n =
     (if i < length (tasks n)
      then (case tasks n ! i of (l, r) \<Rightarrow>
        Option.bind (poll_broadcast (bc_recv E (bcast n) r) r ev) (\<lambda>r'.
        map_option
          (\<lambda>(m', l'). n\<lparr>manager := m', tasks := (tasks n)[i := (l', r')],
             bcast := if holds_receiver l \<and> \<not> holds_receiver l'
                      then bc_unsubscribe E (bcast n) r' else bcast n\<rparr>)
          (task_next (task_env E) (manager n, l) ev)))
      else None)"

text \<open>
  A round of the heartbeat task: \<open>tick()\<close> completes only when the interval is ready, \<open>notified()\<close>
  only with a permit, which it takes. The clock is the one of the runtime, in milliseconds since
  the interval was made; it moves by itself.
\<close>

definition beat_event ::
    "('ch, 'e, 'b, 'r, 'iv) node_env \<Rightarrow> wakeup \<Rightarrow> ('ch, 'b, 'r, 'iv) node \<Rightarrow> ('ch, 'b, 'r, 'iv) node option" where
  "beat_event E w n =
     (if beating n \<and> (case w of Tick \<Rightarrow> iv_ready E (clock n) (interval n) | Notified \<Rightarrow> permit n)
      then (case heartbeat_iteration (bc_send E) (iv_tick E) (iv_reset E (clock n)) (manager n)
                   (beat E) w (bcast n, interval n) of
          (flow, b', iv') \<Rightarrow>
            Some (n\<lparr>bcast := b', interval := iv', beating := (flow = Continue),
                    permit := (permit n \<and> w \<noteq> Notified)\<rparr>))
      else None)"

definition elapse :: "nat \<Rightarrow> ('ch, 'b, 'r, 'iv) node \<Rightarrow> ('ch, 'b, 'r, 'iv) node option" where
  "elapse d n = Some (n\<lparr>clock := clock n + d\<rparr>)"

section \<open>One step of the node\<close>

fun dispatch :: "('ch, 'e, 'b, 'r, 'iv) node_env \<Rightarrow> 'io node_event \<Rightarrow> ('ch, 'b, 'r, 'iv) node \<Rightarrow> ('ch, 'b, 'r, 'iv) node option" where
  "dispatch E Dial n = dial_seed E n"
| "dispatch E (DialDone i connected) n = connect_done E i connected n"
| "dispatch E (ListenBind bound) n = start_listen E (ListenBind bound :: 'io node_event) n"
| "dispatch E NotifyOne n = start_listen E (NotifyOne :: 'io node_event) n"
| "dispatch E (Accept accepted) n = start_listen E (Accept accepted :: 'io node_event) n"
| "dispatch E (OfTask i ev) n = task_event E i ev n"
| "dispatch E (Beat w) n = beat_event E w n"
| "dispatch E (Elapse d) n = elapse d n"

definition node_next ::
    "('ch, 'e, 'b, 'r, 'iv) node_env \<Rightarrow> ('ch, 'b, 'r, 'iv) node \<Rightarrow> 'io node_event \<Rightarrow> ('ch, 'b, 'r, 'iv) node option" where
  "node_next E n ev = (if main_running n then dispatch E ev n else None)"

abbreviation node_step ::
    "('ch, 'e, 'b, 'r, 'iv) node_env \<Rightarrow> ('ch, 'b, 'r, 'iv) node \<Rightarrow> 'io node_event \<Rightarrow> ('ch, 'b, 'r, 'iv) node \<Rightarrow> bool" where
  "node_step E n ev n' \<equiv> node_next E n ev = Some n'"

abbreviation node_run ::
    "('ch, 'e, 'b, 'r, 'iv) node_env \<Rightarrow> ('ch, 'b, 'r, 'iv) node \<Rightarrow> 'io node_event list \<Rightarrow> ('ch, 'b, 'r, 'iv) node \<Rightarrow> bool" where
  "node_run E \<equiv> run (node_step E)"

interpretation node: computed_steps "node_step E" "node_next E" for E
  by unfold_locales simp

lemma start_connection_cases [consumes 1, case_names started failed]:
  assumes "start_connection E addr cap = r"
  obtains ch where "r = Ok (fresh_link addr ch)" "ch_new E cap = Ok ch"
    | "\<not> is_ok r" "\<not> is_ok (ch_new E cap)"
  using assms that by (cases "ch_new E cap") (auto simp: start_connection_def)

text \<open>The steps, case by case.\<close>

lemma connect_done_cases [consumes 1, case_names dropped connected]:
  assumes "connect_done E i connected n = Some n'"
  obtains ds peer r es where "dialing n = ds @ (peer, r) # es" "i = length ds"
      "n' = n\<lparr>dialing := ds @ es, bcast := bc_unsubscribe E (bcast n) r\<rparr>"
    | ds peer r es addr ch where "dialing n = ds @ (peer, r) # es" "i = length ds"
      "ch_new (task_env E) (pending E) = Ok ch"
      "n' = n\<lparr>dialing := ds @ es, tasks := tasks n @ [(fresh_link addr ch, r)]\<rparr>"
proof -
  from assms have i: "i < length (dialing n)" by (simp add: connect_done_def split: if_splits)
  obtain peer r where peer: "dialing n ! i = (peer, r)" by (cases "dialing n ! i")
  note split = id_take_nth_drop [OF i, unfolded peer]
  have len: "i = length (take i (dialing n))" using i by simp
  show ?thesis
  proof (cases "\<exists>addr. connect_target (resolve E) connected peer = Ok (Some addr) \<and>
      is_ok (start_connection (task_env E) addr (pending E))")
    case True
    then obtain addr where target: "connect_target (resolve E) connected peer = Ok (Some addr)"
      and ok: "is_ok (start_connection (task_env E) addr (pending E))" by blast
    then obtain ch where "start_connection (task_env E) addr (pending E) = Ok (fresh_link addr ch)"
      "ch_new (task_env E) (pending E) = Ok ch"
      by (cases rule: start_connection_cases [OF refl, of "task_env E" addr "pending E"]) auto
    with target i assms peer show ?thesis
      by (intro that(2) [OF split len]) (auto simp: connect_done_def Let_def)
  next
    case False
    with i assms peer show ?thesis
      by (intro that(1) [OF split len])
        (auto simp: connect_done_def Let_def split: outcome.splits option.splits)
  qed
qed

lemma task_event_cases [consumes 1, case_names task]:
  assumes "task_event E i ev n = Some n'"
  obtains ls l r rs m' l' r' where "tasks n = ls @ (l, r) # rs" "i = length ls"
    "poll_broadcast (bc_recv E (bcast n) r) r ev = Some r'"
    "task_step (task_env E) (manager n, l) ev (m', l')"
    "n' = n\<lparr>manager := m', tasks := ls @ (l', r') # rs,
       bcast := if holds_receiver l \<and> \<not> holds_receiver l'
                then bc_unsubscribe E (bcast n) r' else bcast n\<rparr>"
proof -
  from assms have i: "i < length (tasks n)" by (simp add: task_event_def split: if_splits)
  obtain l r where task: "tasks n ! i = (l, r)" by (cases "tasks n ! i")
  from i assms task obtain m' l' r' where
    poll: "poll_broadcast (bc_recv E (bcast n) r) r ev = Some r'" and
    next_state: "task_next (task_env E) (manager n, l) ev = Some (m', l')" and
    n': "n' = n\<lparr>manager := m', tasks := (tasks n)[i := (l', r')],
       bcast := if holds_receiver l \<and> \<not> holds_receiver l'
                then bc_unsubscribe E (bcast n) r' else bcast n\<rparr>"
    by (auto simp: task_event_def bind_eq_Some_conv)
  have upd: "(tasks n)[i := (l', r')] = take i (tasks n) @ (l', r') # drop (Suc i) (tasks n)"
    using i by (simp add: upd_conv_take_nth_drop)
  show ?thesis
    by (rule that [OF id_take_nth_drop [OF i, unfolded task] _ poll task_next_step [OF next_state]])
      (use i n' upd in auto)
qed

lemma node_cases [consumes 1, case_names dial dropped connected bind_fails bind_ok
    notify accept_err accept accept_panic task beat elapse]:
  assumes "node_step E n ev n'"
  obtains
    peer rest r b where "ev = Dial" "to_dial n = peer # rest" "bc_subscribe E (bcast n) = (r, b)"
      "n' = n\<lparr>to_dial := rest, dialing := dialing n @ [(peer, r)], bcast := b\<rparr>"
  | i c ds peer r es where "ev = DialDone i c" "dialing n = ds @ (peer, r) # es"
      "n' = n\<lparr>dialing := ds @ es, bcast := bc_unsubscribe E (bcast n) r\<rparr>"
  | i c ds peer r es addr ch where "ev = DialDone i c" "dialing n = ds @ (peer, r) # es"
      "ch_new (task_env E) (pending E) = Ok ch"
      "n' = n\<lparr>dialing := ds @ es, tasks := tasks n @ [(fresh_link addr ch, r)]\<rparr>"
  | "ev = ListenBind False" "n' = n\<lparr>listener := Returned\<rparr>" "listener n = NotStarted"
  | "ev = ListenBind True" "n' = n\<lparr>listener := Notifying\<rparr>" "listener n = NotStarted"
  | "ev = NotifyOne" "n' = n\<lparr>listener := Accepting, permit := True\<rparr>"
      "listener n = Notifying"
  | "ev = Accept None" "n' = n\<lparr>listener := Notifying\<rparr>" "listener n = Accepting"
  | addr ch r b where "ev = Accept (Some addr)" "ch_new (task_env E) (pending E) = Ok ch"
      "bc_subscribe E (bcast n) = (r, b)"
      "n' = n\<lparr>listener := Notifying, tasks := tasks n @ [(fresh_link addr ch, r)], bcast := b\<rparr>"
      "listener n = Accepting"
  | addr where "ev = Accept (Some addr)" "\<not> is_ok (ch_new (task_env E) (pending E))"
      "n' = n\<lparr>listener := MainPanicked\<rparr>" "listener n = Accepting"
  | tev ls l r rs m' l' r' where "ev = OfTask (length ls) tev" "tasks n = ls @ (l, r) # rs"
      "poll_broadcast (bc_recv E (bcast n) r) r tev = Some r'"
      "task_step (task_env E) (manager n, l) tev (m', l')"
      "n' = n\<lparr>manager := m', tasks := ls @ (l', r') # rs,
         bcast := if holds_receiver l \<and> \<not> holds_receiver l'
                  then bc_unsubscribe E (bcast n) r' else bcast n\<rparr>"
  | w flow b' iv' where "ev = Beat w" "beating n"
      "case w of Tick \<Rightarrow> iv_ready E (clock n) (interval n) | Notified \<Rightarrow> permit n"
      "heartbeat_iteration (bc_send E) (iv_tick E) (iv_reset E (clock n)) (manager n) (beat E) w
         (bcast n, interval n) = (flow, b', iv')"
      "n' = n\<lparr>bcast := b', interval := iv', beating := (flow = Continue),
              permit := (permit n \<and> w \<noteq> Notified)\<rparr>"
  | d where "ev = Elapse d" "n' = n\<lparr>clock := clock n + d\<rparr>"
proof -
  from assms have step: "dispatch E ev n = Some n'" by (simp add: node_next_def split: if_splits)
  show thesis
  proof (cases ev)
    case Dial
    with step that(1) show thesis by (auto simp: dial_seed_def split: list.splits prod.splits)
  next
    case (DialDone i c)
    with step have "connect_done E i c n = Some n'" by simp
    then show thesis
    proof (cases rule: connect_done_cases)
      case (dropped ds peer r es)
      then show thesis using that(2) [OF DialDone] by blast
    next
      case (connected ds peer r es addr ch)
      then show thesis using that(3) [OF DialDone] by blast
    qed
  next
    case (ListenBind bound)
    with step that(4,5) show thesis by (cases bound) (auto simp: listen_bind_def split: if_splits)
  next
    case NotifyOne
    with step that(6) show thesis by (auto simp: listen_notify_def split: if_splits)
  next
    case (Accept accepted)
    show thesis
    proof (cases accepted)
      case None
      with Accept step that(7) show thesis by (auto simp: listen_accept_def split: if_splits)
    next
      case (Some addr)
      show thesis
      proof (cases rule: start_connection_cases [OF refl, of "task_env E" addr "pending E"])
        case (1 ch)
        with Accept Some step that(8) show thesis
          by (auto simp: listen_accept_def split: if_splits prod.splits)
      next
        case 2
        with Accept Some step that(9) show thesis
          by (auto simp: listen_accept_def split: if_splits outcome.splits)
      qed
    qed
  next
    case (OfTask i tev)
    with step have "task_event E i tev n = Some n'" by simp
    then show thesis
    proof (cases rule: task_event_cases)
      case (task ls l r rs m' l' r')
      then show thesis using OfTask by (intro that(10) [of ls tev l r rs r' m' l']) simp_all
    qed
  next
    case (Beat w)
    with step have on: "beating n"
      "case w of Tick \<Rightarrow> iv_ready E (clock n) (interval n) | Notified \<Rightarrow> permit n"
      by (auto simp: beat_event_def split: if_splits)
    obtain flow b' iv' where round: "heartbeat_iteration (bc_send E) (iv_tick E) (iv_reset E (clock n))
        (manager n) (beat E) w (bcast n, interval n) = (flow, b', iv')"
      by (metis prod_cases3)
    with Beat step on show thesis
      by (intro that(11) [OF Beat on round]) (simp add: beat_event_def)
  next
    case (Elapse d)
    with step that(12) show thesis by (simp add: elapse_def)
  qed
qed

section \<open>A concrete node\<close>

text \<open>
  The node as main starts it: an empty table, the seeds still to be dialled, the heartbeat task
  running, no notification pending.
\<close>

definition node_init :: "ConnectionManager \<Rightarrow> 'b \<Rightarrow> 'iv \<Rightarrow> string list \<Rightarrow> ('ch, 'b, 'r, 'iv) node" where
  "node_init m b iv peers =
     \<lparr>manager = m, tasks = [], bcast = b, to_dial = peers, dialing = [],
      listener = NotStarted, beating = True, interval = iv, clock = 0, permit = False\<rparr>"

text \<open>
  A concrete node: the sample task environment, a broadcast channel that keeps two values and
  whose first receiver main has dropped, a heartbeat every millisecond.
\<close>

definition sample_node_env :: "(queue, string, sent_log, nat, Interval) node_env" where
  "sample_node_env =
     \<lparr>task_env = sample_env, resolve = (\<lambda>_. Some [V4 127 0 0 1 8080]), bc_send = log_send,
      bc_subscribe = log_subscribe, bc_recv = log_recv, bc_unsubscribe = log_unsubscribe,
      iv_ready = interval_ready, iv_tick = interval_tick, iv_reset = interval_reset, pending = 2, beat = [2, 0]\<rparr>"

definition sample_bcast :: sent_log where
  "sample_bcast = \<lparr>sent_values = [], window = 2, receiver_count = 0\<rparr>"

definition sample_node :: "usize \<Rightarrow> string list \<Rightarrow> (queue, sent_log, nat, Interval) node" where
  "sample_node cap peers = node_init (manager_new cap) sample_bcast \<lparr>due_at = 0, every = 1\<rparr> peers"

lemmas sample_node_defs =
  sample_node_env_def sample_node_def sample_env_def node_init_def node_next_def main_running_def
  dial_seed_def connect_done_def connect_target_def listen_bind_def listen_notify_def
  listen_accept_def task_event_def beat_event_def elapse_def interval_defs heartbeat_iteration_def start_connection_def
  manager_defs map_len_def queue_defs queue_create_def log_defs sample_bcast_def holds_receiver_def
  less_eq_phase_def first_frame_def handshake_start_def as_bytes_def record_send_def
  read_iteration_def Let_def

text \<open>One peer connects, and a heartbeat is sent and forwarded to it.\<close>

definition visit :: "unit node_event list" where
  "visit =
     [ListenBind True, NotifyOne, Accept (Some (V4 10 0 0 1 5000)), OfTask 0 (EvInsert \<lparr>created_at = 0\<rparr>),
      OfTask 0 (EvHandshake True), Beat Notified, Elapse 1, Beat Tick,
      OfTask 0 (EvSelect (FromBroadcast [2, 0]) True)]"

definition after_visit :: "(queue, sent_log, nat, Interval) node" where
  "after_visit = the (run_fun (node_next sample_node_env) visit (sample_node 1 []))"

lemma visit_computes:
  "run_fun (node_next sample_node_env) visit (sample_node 1 []) =
     Some \<lparr>manager = \<lparr>capacity = 1, shared_state = [(V4 10 0 0 1 5000, \<lparr>created_at = 0\<rparr>)]\<rparr>,
       tasks = [(\<lparr>peer_addr = V4 10 0 0 1 5000, phase = Running,
                  chan = \<lparr>items = [], size_limit = 2, shut = False\<rparr>, sent = [hello_frame, [2, 0]],
                  listens = True\<rparr>, 1)],
       bcast = \<lparr>sent_values = [[2, 0]], window = 2, receiver_count = 1\<rparr>, to_dial = [], dialing = [],
       listener = Notifying, beating = True, interval = \<lparr>due_at = 2, every = 1\<rparr>, clock = 1,
       permit = False\<rparr>"
  by (simp add: visit_def sample_node_defs handler_iteration_def)

lemmas after_visit_eq = after_visit_def [unfolded visit_computes option.sel]

lemma visit_run: "node_run sample_node_env (sample_node 1 []) visit after_visit"
  by (simp add: node.run_iff after_visit_def visit_computes)

section \<open>One task among the others\<close>

text \<open>
  The events of connection task \<open>i\<close> in a run of the node. Whatever the other tasks do in between,
  they are a run of that task, from the moment its connection was started.
\<close>

fun of_task :: "nat \<Rightarrow> 'io node_event \<Rightarrow> 'io event list" where
  "of_task i (OfTask j ev) = (if j = i then [ev] else [])"
| "of_task i _ = []"

definition task_trace :: "nat \<Rightarrow> 'io node_event list \<Rightarrow> 'io event list" where
  "task_trace i evs = concat (map (of_task i) evs)"

lemma task_trace_snoc [simp]:
  "task_trace i [] = []" "task_trace i (evs @ [ev]) = task_trace i evs @ of_task i ev"
  by (simp_all add: task_trace_def)

lemma task_of_step [consumes 2, case_names own other]:
  assumes "node_step E n ev n'" and "i < length (tasks n)"
  obtains tev m m' where "of_task i ev = [tev]"
      "task_step (task_env E) (m, fst (tasks n ! i)) tev (m', fst (tasks n' ! i))"
      "poll_broadcast (bc_recv E (bcast n) (snd (tasks n ! i))) (snd (tasks n ! i)) tev =
         Some (snd (tasks n' ! i))"
    | "of_task i ev = []" "tasks n' ! i = tasks n ! i"
  using assms(1)
proof (cases rule: node_cases)
  case (task tev ls l r rs m' l' r')
  show ?thesis
  proof (cases "i = length ls")
    case True
    with task show ?thesis by (intro that(1) [of tev "manager n" m']) simp_all
  next
    case False
    with task that(2) show ?thesis by (simp add: nth_append)
  qed
qed (use assms(2) that(2) in \<open>simp_all add: nth_append\<close>)

lemma tasks_grow:
  assumes "node_step E n ev n'"
  shows "length (tasks n) \<le> length (tasks n')"
  using assms by (cases rule: node_cases) simp_all

lemma new_task:
  assumes "node_step E n ev n'" and "\<not> i < length (tasks n)"
  shows "of_task i ev = [] \<and> (i < length (tasks n') \<longrightarrow>
    (\<exists>addr ch. fst (tasks n' ! i) = fresh_link addr ch \<and> ch_new (task_env E) (pending E) = Ok ch))"
  using assms(1)
proof (cases rule: node_cases)
  case (connected j c ds peer r es addr ch)
  then show ?thesis using assms(2) by (auto simp: nth_append less_Suc_eq)
next
  case (accept addr ch r b)
  then show ?thesis using assms(2) by (auto simp: nth_append less_Suc_eq)
qed (use assms(2) in auto)

lemma node_run_task:
  "node_run E n evs n' \<Longrightarrow> i < length (tasks n) \<Longrightarrow>
   i < length (tasks n') \<and> link_run (task_env E) (fst (tasks n ! i)) (task_trace i evs) (fst (tasks n' ! i))"
proof (induction rule: run.induct)
  case (none s)
  then show ?case by (simp add: run.none)
next
  case (more s evs t ev u)
  then have i: "i < length (tasks t)" by simp
  from more.hyps(2) i show ?case
  proof (cases rule: task_of_step)
    case (own tev m m')
    then have "link_step (task_env E) (fst (tasks t ! i)) tev (fst (tasks u ! i))"
      using link_stepI by fastforce
    with own(1) more i tasks_grow [OF more.hyps(2)] show ?thesis by (auto intro: run.more)
  next
    case other
    with more i tasks_grow [OF more.hyps(2)] show ?thesis by auto
  qed
qed

lemma node_run_from_start:
  "node_run E n evs n' \<Longrightarrow> \<not> i < length (tasks n) \<Longrightarrow>
   (if i < length (tasks n')
    then \<exists>addr ch. ch_new (task_env E) (pending E) = Ok ch \<and>
      link_run (task_env E) (fresh_link addr ch) (task_trace i evs) (fst (tasks n' ! i))
    else task_trace i evs = [])"
proof (induction rule: run.induct)
  case (none s)
  then show ?case by simp
next
  case (more s evs t ev u)
  show ?case
  proof (cases "i < length (tasks t)")
    case False
    with more have "task_trace i (evs @ [ev]) = []"
      using new_task [OF more.hyps(2) False] by simp
    with new_task [OF more.hyps(2) False] show ?thesis by (metis run.none)
  next
    case True
    with more obtain addr ch where ch: "ch_new (task_env E) (pending E) = Ok ch"
      and run: "link_run (task_env E) (fresh_link addr ch) (task_trace i evs) (fst (tasks t ! i))" by auto
    have "link_run (task_env E) (fst (tasks t ! i)) (of_task i ev) (fst (tasks u ! i))"
      using node_run_task [OF run_single [where step = "node_step E", OF more.hyps(2)] True] by (simp add: task_trace_def)
    from run_append [OF this run] ch True tasks_grow [OF more.hyps(2)] show ?thesis by auto
  qed
qed

section \<open>Panics\<close>

lemma step_no_panic:
  assumes ops: "channel_ops (task_env E) buffered is_closed limit"
    and total: "\<And>msg. codec_ser (task_env E) msg \<noteq> None"
    and cap: "ch_new (task_env E) (pending E) = Ok ch0"
    and step: "node_step E n ev n'"
    and inv: "list_all (\<lambda>l. chan_open is_closed l \<and> phase l \<noteq> Crashed) (links n) \<and> listener n \<noteq> MainPanicked"
  shows "list_all (\<lambda>l. chan_open is_closed l \<and> phase l \<noteq> Crashed) (links n') \<and> listener n' \<noteq> MainPanicked"
proof -
  have fresh: "chan_open is_closed (fresh_link a ch) \<and> phase (fresh_link a ch) \<noteq> Crashed"
    if "ch_new (task_env E) (pending E) = Ok ch" for a ch
    using that mpsc.create_fresh [OF ops [unfolded channel_ops_def]] by (simp add: chan_open_def)
  from step show ?thesis
  proof (cases rule: node_cases)
    case (task tev ls l r rs m' l' r')
    then show ?thesis
      using step_chan_open [OF ops task(4)] step_no_crash [OF ops total task(4)] inv by simp
  next
    case (connected i c ds peer r es addr ch)
    then show ?thesis using fresh [of ch addr] inv by simp
  next
    case (accept addr ch r b)
    then show ?thesis using fresh [of ch addr] inv by simp
  qed (use inv cap in simp_all)
qed

section \<open>Properties\<close>

text \<open>
  C21. Nothing a peer does makes a connection task or main panic, in any interleaving of all
  tasks, as long as the serializer does not fail and the configured channel capacity is one
  that \<open>mpsc::channel\<close> accepts.
\<close>

theorem peers_cannot_crash_node:
  assumes ops: "channel_ops (task_env E) buffered is_closed limit"
    and total: "\<And>msg. codec_ser (task_env E) msg \<noteq> None"
    and cap: "ch_new (task_env E) (pending E) = Ok ch"
    and run: "node_run E (node_init m b iv peers) evs n"
  shows "list_all (\<lambda>l. phase l \<noteq> Crashed) (links n) \<and> listener n \<noteq> MainPanicked"
proof -
  have "preserved (node_step E) (\<lambda>n. list_all (\<lambda>l. chan_open is_closed l \<and> phase l \<noteq> Crashed) (links n)
      \<and> listener n \<noteq> MainPanicked)"
    by (rule preserved.intro) (rule step_no_panic [OF ops total cap])
  from preserved.run_keeps [OF this run] show ?thesis by (simp add: node_init_def list_all_iff)
qed

lemma peers_cannot_crash_node_witness:
  "\<exists>n. node_run sample_node_env (sample_node 1 []) visit n \<and> list_all (\<lambda>l. phase l \<noteq> Crashed) (links n)"
proof -
  have ops: "channel_ops (task_env sample_node_env) items shut size_limit"
    using sample_ops by (simp add: sample_node_env_def)
  have "list_all (\<lambda>l. phase l \<noteq> Crashed) (links after_visit)"
    using peers_cannot_crash_node [OF ops _ _ visit_run [unfolded sample_node_def], of "queue_new 2"]
    by (simp add: sample_node_env_def sample_env_def sample_ser_total queue_create_def)
  with visit_run show ?thesis by blast
qed

text \<open>
  C6. In the whole node, with every other task interleaved, each connection task still does what
  \<open>start\<close> does: its own events come in the order of the code's phases; what its peer received is
  what those events produce, in their order; what it handled is a prefix of what it read, nothing
  is lost while it runs, and its buffer stays within the configured capacity.
\<close>

theorem tasks_follow_start:
  assumes ops: "channel_ops (task_env E) buffered is_closed limit"
    and run: "node_run E (node_init m b iv peers) evs n" and i: "i < length (tasks n)"
  shows "task_shape (phase (links n ! i)) (task_trace i evs) \<and>
    sent (links n ! i) =
      concat (map (event_output (task_env E) (peer_addr (links n ! i))) (task_trace i evs)) \<and>
    (\<exists>rest. reads (task_trace i evs) = handled (task_trace i evs) @ rest \<and>
       (phase (links n ! i) \<le> Running \<longrightarrow> rest = buffered (chan (links n ! i)))) \<and>
    length (buffered (chan (links n ! i))) \<le> unat (pending E)"
proof -
  obtain addr ch where ch: "ch_new (task_env E) (pending E) = Ok ch"
    and run: "link_run (task_env E) (fresh_link addr ch) (task_trace i evs) (links n ! i)"
    using node_run_from_start [OF run, of i] i by (auto simp: node_init_def)
  have fresh: "buffered ch = [] \<and> limit ch = unat (pending E)"
    using mpsc.create_fresh [OF ops [unfolded channel_ops_def] ch] by simp
  have "peer_addr (links n ! i) = addr"
    using same_peer.run_keeps [OF run, of addr] by simp
  with fresh run_shape [OF run] run_output [OF run] run_flow [OF ops run] run_limit [OF ops run]
  show ?thesis by simp
qed

lemma tasks_follow_start_witness:
  "task_shape Running (task_trace 0 visit) \<and>
   concat (map (event_output sample_env (V4 10 0 0 1 5000)) (task_trace 0 visit)) = [hello_frame, [2, 0]]"
proof -
  have ops: "channel_ops (task_env sample_node_env) items shut size_limit"
    using sample_ops by (simp add: sample_node_env_def)
  from tasks_follow_start [OF ops visit_run [unfolded sample_node_def], of 0] show ?thesis
    by (simp add: after_visit_eq sample_node_env_def)
qed

end
