(* ===== verification/Membership.thy ===== *)
theory Membership
  imports Node
begin

text \<open>
  The connection table of the running node: what it says about the connection tasks, at every
  point of every interleaving.
\<close>

section \<open>The shared table\<close>

interpretation node_table: preserved "node_step E"
    "\<lambda>n. manager_wf (manager n) \<and> capacity (manager n) = cap" for E cap
proof unfold_locales
  fix n n' ev
  assume "node_step E n ev n'" and wf: "manager_wf (manager n) \<and> capacity (manager n) = cap"
  then show "manager_wf (manager n') \<and> capacity (manager n') = cap"
  proof (cases rule: node_cases)
    case (task tev ls l r rs m' l' r')
    then show ?thesis using shared_table.step_keeps [OF task(4)] wf by simp
  qed simp_all
qed

text \<open>
  Which tasks have their address in the table, as far as their own events go: from a
  successful \<open>insert\<close> to \<open>remove\<close>. A task that panicked never removes itself.
\<close>

definition in_table :: "'ch link \<Rightarrow> bool" where
  "in_table l \<longleftrightarrow> phase l \<notin> {Spawned, Refused, Finished}"

definition registered_addrs :: "('ch, 'b, 'r, 'iv) node \<Rightarrow> SocketAddr list" where
  "registered_addrs n = map peer_addr (filter in_table (links n))"

lemma task_table_cases [consumes 2, case_names enters leaves stays]:
  assumes "task_step E (m, l) ev (m', l')" and "manager_wf m"
  obtains md where "\<not> in_table l" "in_table l'" "manager_get m' = (manager_get m)(peer_addr l \<mapsto> md)"
    | "in_table l" "\<not> in_table l'" "manager_get m' = (manager_get m)(peer_addr l := None)"
    | "in_table l' = in_table l" "m' = m"
  using assms
proof (cases rule: task_step.cases)
  case (refuse md e)
  then show ?thesis using assms(2) that(3) by (auto elim: mgr.ins_cases simp: in_table_def)
next
  case (register md old)
  then show ?thesis using assms(2) that(1) by (auto elim: mgr.ins_cases simp: in_table_def)
next
  case (remove old)
  then show ?thesis using assms(2) that(2) by (auto elim: mgr.rem_cases simp: in_table_def)
qed (auto simp: in_table_def intro: that(3))

lemma step_links:
  assumes "node_step E n ev n'"
  shows "\<exists>new. map peer_addr (links n') = map peer_addr (links n) @ new"
  using assms
proof (cases rule: node_cases)
  case (task tev ls l r rs m' l' r')
  then show ?thesis using step_addr [OF task(4)] by simp
qed simp_all

lemma step_distinct:
  "node_step E n ev n' \<Longrightarrow> distinct (map peer_addr (links n')) \<Longrightarrow> distinct (map peer_addr (links n))"
  by (drule step_links) auto

lemma step_table:
  assumes "node_step E n ev n'" and wf: "manager_wf (manager n)"
    and dist: "distinct (map peer_addr (links n))"
    and dom: "dom (manager_get (manager n)) = set (registered_addrs n)"
  shows "dom (manager_get (manager n')) = set (registered_addrs n')"
  using assms(1)
proof (cases rule: node_cases)
  case (task tev ls l r rs m' l' r')
  have addr: "peer_addr l' = peer_addr l" using step_addr [OF task(4)] by simp
  from task(4) wf show ?thesis
    by (cases rule: task_table_cases) (use task dom dist addr in \<open>auto simp: registered_addrs_def\<close>)
qed (use dom in \<open>simp_all add: registered_addrs_def in_table_def\<close>)

lemma run_table:
  "node_run E s evs t \<Longrightarrow> manager_wf (manager s) \<Longrightarrow>
   dom (manager_get (manager s)) = set (registered_addrs s) \<Longrightarrow>
   distinct (map peer_addr (links t)) \<Longrightarrow>
   manager_wf (manager t) \<and> dom (manager_get (manager t)) = set (registered_addrs t)"
proof (induction rule: run.induct)
  case (more s evs t ev u)
  have dist: "distinct (map peer_addr (links t))"
    using step_distinct [OF more.hyps(2) more.prems(3)] .
  note ih = more.IH [OF more.prems(1,2) dist]
  with step_table [OF more.hyps(2) _ dist] node_table.step_keeps [OF more.hyps(2)]
  show ?case by blast
qed simp

section \<open>Properties\<close>

text \<open>
  C2. As long as the peers' addresses are distinct, the connection table is exact: at every
  point of every interleaving its keys are exactly the addresses of the connection tasks that
  have registered and not yet removed themselves, \<open>num_connections\<close> counts those tasks, and
  there are never more of them than the configured limit.
\<close>

theorem table_tracks_live_tasks:
  assumes run: "node_run E (node_init (manager_new cap) b iv peers) evs n"
    and dist: "distinct (map peer_addr (links n))"
  shows "dom (manager_get (manager n)) = set (registered_addrs n) \<and>
    unat (num_connections (manager n)) = length (filter in_table (links n)) \<and>
    length (filter in_table (links n)) \<le> unat cap"
proof -
  from run_table [OF run _ _ dist] have wf: "manager_wf (manager n)"
    and dom: "dom (manager_get (manager n)) = set (registered_addrs n)"
    by (simp_all add: node_init_def registered_addrs_def)
  have cap: "capacity (manager n) = cap"
    using node_table.run_keeps [OF run, of cap]
    by (simp add: node_init_def manager_new_def manager_wf_def)
  have "distinct (registered_addrs n)"
    using dist by (simp add: registered_addrs_def distinct_map_filter)
  then have "card (set (registered_addrs n)) = length (filter in_table (links n))"
    by (simp add: distinct_card) (simp add: registered_addrs_def)
  with dom mgr.num_card [OF wf] mgr.num_limit [OF wf] cap show ?thesis
    by (simp add: word_le_nat_alt)
qed

lemma table_tracks_live_tasks_witness:
  "dom (manager_get (manager after_visit)) = set (registered_addrs after_visit)"
  using table_tracks_live_tasks [OF visit_run [unfolded sample_node_def]]
  by (simp add: after_visit_eq)

text \<open>
  C31. Without distinct addresses the limit does not hold: a node with a limit of two peers whose
  three seeds resolve to one address runs three connections at once while the table counts
  one, and when the first of them closes, the table is empty with two connections running.
\<close>

theorem duplicate_peers_exceed_limit:
  "\<exists>evs n evs' n'.
     node_run sample_node_env (sample_node 2 [''a'', ''b'', ''c'']) (evs :: unit node_event list) n \<and>
     capacity (manager n) = 2 \<and> length (filter (\<lambda>l. phase l = Running) (links n)) = 3 \<and>
     num_connections (manager n) = 1 \<and>
     node_run sample_node_env n (evs' :: unit node_event list) n' \<and>
     length (filter (\<lambda>l. phase l = Running) (links n')) = 2 \<and>
     num_connections (manager n') = 0"
proof -
  define start :: "nat \<Rightarrow> unit node_event list" where
    "start i = [OfTask i (EvInsert \<lparr>created_at = 0\<rparr>), OfTask i (EvHandshake True)]" for i
  let ?evs = "[Dial, Dial, Dial, DialDone 0 True, DialDone 0 True, DialDone 0 True] @
    start 0 @ start 1 @ start 2"
  let ?evs' = "[OfTask 0 (EvRead None), OfTask 0 EvCloseWriter, OfTask 0 EvRemove] :: unit node_event list"
  obtain n n' where "run_fun (node_next sample_node_env) ?evs (sample_node 2 [''a'', ''b'', ''c'']) = Some n \<and>
     capacity (manager n) = 2 \<and> length (filter (\<lambda>l. phase l = Running) (links n)) = 3 \<and>
     num_connections (manager n) = 1 \<and> run_fun (node_next sample_node_env) ?evs' n = Some n' \<and>
     length (filter (\<lambda>l. phase l = Running) (links n')) = 2 \<and> num_connections (manager n') = 0"
    by (simp add: start_def sample_node_defs word_le_nat_alt)
  then show ?thesis unfolding node.run_iff
    by - (rule exI [of _ ?evs], rule exI [of _ n], rule exI [of _ ?evs'], rule exI [of _ n'], assumption)
qed

end
