(* ===== verification/Delivery.thy ===== *)
theory Delivery
  imports Node "HOL-Library.Sublist"
begin

text \<open>
  What goes from the heartbeat task through the broadcast channel to the peers of the running
  node: who holds a receiver, when a tick panics, which broadcasts a connection task takes, what
  a peer can receive at all, and what resets the heartbeat's interval.
\<close>

section \<open>Receivers of the broadcast channel\<close>

definition bc_ops ::
    "('ch, 'e, 'b, 'r, 'iv) node_env \<Rightarrow> ('b \<Rightarrow> bytes list) \<Rightarrow> ('b \<Rightarrow> nat) \<Rightarrow> ('r \<Rightarrow> nat) \<Rightarrow> ('b \<Rightarrow> nat) \<Rightarrow> bool"
  where
  "bc_ops E log receivers pos limit \<longleftrightarrow>
     broadcast_channel (bc_send E) (bc_subscribe E) (bc_recv E) (bc_unsubscribe E)
       log receivers pos limit"

lemma bc_opsD:
  "bc_ops E log receivers pos limit \<Longrightarrow>
   broadcast_channel (bc_send E) (bc_subscribe E) (bc_recv E) (bc_unsubscribe E)
     log receivers pos limit"
  by (simp add: bc_ops_def)

lemma sample_bc_ops: "bc_ops sample_node_env sent_values receiver_count (\<lambda>r. r) window"
  by (simp add: bc_ops_def sample_node_env_def logged.broadcast_channel_axioms)

definition receiver_owners :: "('ch, 'b, 'r, 'iv) node \<Rightarrow> nat" where
  "receiver_owners n = length (dialing n) + length (filter holds_receiver (links n))"

lemma step_receivers:
  assumes ops: "bc_ops E log receivers pos limit" and "node_step E n ev n'"
    and eq: "receivers (bcast n) = receiver_owners n"
  shows "receivers (bcast n') = receiver_owners n'"
proof -
  note fresh = broadcast_channel.subscribe_fresh [OF bc_opsD [OF ops]]
    and drops = broadcast_channel.unsubscribe_drops [OF bc_opsD [OF ops]]
  from assms(2) show ?thesis
  proof (cases rule: node_cases)
    case (task tev ls l r rs m' l' r')
    have "holds_receiver l' \<Longrightarrow> holds_receiver l"
      using step_phase_mono [OF task(4)] by (simp add: holds_receiver_def)
    with task eq drops show ?thesis by (auto simp: receiver_owners_def)
  next
    case (beat w flow b' iv')
    then show ?thesis
      using broadcast_channel.iteration_channel [OF bc_opsD [OF ops] beat(4)] eq
      by (simp add: receiver_owners_def)
  next
    case (dial peer rest r b)
    then show ?thesis using fresh [OF dial(3)] eq by (simp add: receiver_owners_def)
  next
    case (accept addr ch r b)
    then show ?thesis using fresh [OF accept(3)] eq
      by (simp add: receiver_owners_def holds_receiver_def less_eq_phase_def)
  qed (use eq drops in \<open>simp_all add: receiver_owners_def holds_receiver_def less_eq_phase_def\<close>)
qed

lemma run_receivers:
  assumes "bc_ops E log receivers pos limit" and "node_run E s evs t"
    and "receivers (bcast s) = receiver_owners s"
  shows "receivers (bcast t) = receiver_owners t"
  using preserved.run_keeps [OF preserved.intro assms(2), of "\<lambda>n. receivers (bcast n) = receiver_owners n"]
    step_receivers [OF assms(1)] assms(3) by blast

section \<open>Positions in the sequence of broadcasts\<close>

fun taken_of :: "'io event \<Rightarrow> bytes list" where
  "taken_of (EvSelect (FromBroadcast v) ok) = [v]"
| "taken_of _ = []"

text \<open>What a poll of the receiver means for its position, over the laws of the channel.\<close>

context broadcast_channel
begin

lemma poll_cases [consumes 2, case_names took lag other]:
  assumes "poll_broadcast (recv b r) r ev = Some r'" and "pos r \<le> length (log b)"
  obtains v where "taken_of ev = [v]" "ev \<noteq> EvLagged" "pos r < length (log b)" "v = log b ! pos r"
      "pos r' = Suc (pos r)"
    | "taken_of ev = []" "ev = EvLagged" "pos r + limit b < length (log b)"
      "pos r' = length (log b) - limit b"
    | "taken_of ev = []" "ev \<noteq> EvLagged" "r' = r"
proof -
  obtain poll r2 where polled: "recv b r = (poll, r2)" by (cases "recv b r")
  show ?thesis
  proof (cases "ev = EvLagged")
    case True
    with assms(1) polled have "r2 = r'" "\<exists>k. poll = Lagged k" by (auto split: bc_poll.splits)
    with polled assms(2) True that(2) show ?thesis
      by (cases rule: recv_cases [OF polled assms(2)]) auto
  next
    case False
    show ?thesis
    proof (cases "\<exists>v ok. ev = EvSelect (FromBroadcast v) ok")
      case True
      then obtain v ok where ev: "ev = EvSelect (FromBroadcast v) ok" by blast
      with assms(1) polled have "r2 = r'" "poll = Received v" by (auto split: if_splits)
      with polled assms(2) ev that(1) [of v] show ?thesis
        by (cases rule: recv_cases [OF polled assms(2)]) auto
    next
      case other: False
      from other False polled assms(1) have "r' = r" "taken_of ev = []"
        by (cases ev; cases "case ev of EvSelect sel ok \<Rightarrow> sel | _ \<Rightarrow> AllDisabled"; auto)+
      with False that(3) show ?thesis by simp
    qed
  qed
qed

end

text \<open>
  The receivers of the node, and that none is ahead of the channel. What a step appends to the
  sequence of broadcasts is one heartbeat or nothing.
\<close>

definition node_receivers :: "('ch, 'b, 'r, 'iv) node \<Rightarrow> 'r list" where
  "node_receivers n = map snd (dialing n) @ map snd (tasks n)"

definition none_ahead :: "('b \<Rightarrow> bytes list) \<Rightarrow> ('r \<Rightarrow> nat) \<Rightarrow> ('ch, 'b, 'r, 'iv) node \<Rightarrow> bool" where
  "none_ahead log pos n \<longleftrightarrow> list_all (\<lambda>r. pos r \<le> length (log (bcast n))) (node_receivers n)"

lemma none_ahead_more:
  "none_ahead log pos n \<Longrightarrow> log (bcast n') = log (bcast n) @ new \<Longrightarrow>
   list_all (\<lambda>r. pos r \<le> length (log (bcast n'))) (node_receivers n)"
  by (auto simp: none_ahead_def list_all_iff intro: trans_le_add1)

definition step_sends :: "('ch, 'e, 'b, 'r, 'iv) node_env \<Rightarrow> ('ch, 'b, 'r, 'iv) node \<Rightarrow> 'io node_event
    \<Rightarrow> ('ch, 'b, 'r, 'iv) node \<Rightarrow> bytes list" where
  "step_sends E n ev n' =
     (if ev = Beat Tick \<and> num_connections (manager n) > 0 \<and> beating n' then [beat E] else [])"

lemma step_log:
  assumes ops: "bc_ops E log receivers pos limit" and "node_step E n ev n'"
  shows "log (bcast n') = log (bcast n) @ step_sends E n ev n' \<and> limit (bcast n') = limit (bcast n)"
proof -
  note fresh = broadcast_channel.subscribe_fresh [OF bc_opsD [OF ops]]
    and drops = broadcast_channel.unsubscribe_drops [OF bc_opsD [OF ops]]
  from assms(2) show ?thesis
  proof (cases rule: node_cases)
    case (beat w flow b' iv')
    then show ?thesis
      using broadcast_channel.iteration_channel [OF bc_opsD [OF ops] beat(4)]
      by (simp add: step_sends_def)
  qed (use fresh drops in \<open>simp_all add: step_sends_def\<close>)
qed

lemma step_none_ahead:
  assumes ops: "bc_ops E log receivers pos limit" and step: "node_step E n ev n'"
    and inv: "none_ahead log pos n"
  shows "none_ahead log pos n'"
proof -
  note fresh = broadcast_channel.subscribe_fresh [OF bc_opsD [OF ops]]
    and more = none_ahead_more [OF inv, of n', OF conjunct1 [OF step_log [OF ops step]], unfolded node_receivers_def]
  from step show ?thesis
  proof (cases rule: node_cases)
    case (dial peer rest r b)
    then show ?thesis using more fresh [OF dial(3)]
      by (simp add: none_ahead_def node_receivers_def)
  next
    case (accept addr ch r b)
    then show ?thesis using more fresh [OF accept(3)]
      by (simp add: none_ahead_def node_receivers_def)
  next
    case (task tev ls l r rs m' l' r')
    then have "pos r \<le> length (log (bcast n))"
      using inv by (simp add: none_ahead_def node_receivers_def)
    then have "pos r' \<le> length (log (bcast n))"
      using task(3) by (cases rule: broadcast_channel.poll_cases [OF bc_opsD [OF ops]]) auto
    moreover have "log (bcast n') = log (bcast n)"
      using step_log [OF ops step] task(1) by (simp add: step_sends_def)
    ultimately show ?thesis using more task(2,5)
      by (simp add: none_ahead_def node_receivers_def)
  qed (use more in \<open>simp_all add: none_ahead_def node_receivers_def\<close>)
qed

section \<open>Broadcasts one task takes\<close>

text \<open>The broadcasts from position \<open>p\<close> up to position \<open>q\<close>.\<close>

definition segment :: "nat \<Rightarrow> nat \<Rightarrow> 'a list \<Rightarrow> 'a list" where
  "segment p q xs = take (q - p) (drop p xs)"

lemma segment_empty [simp]: "segment p p xs = []"
  by (simp add: segment_def)

lemma segment_append: "q \<le> length xs \<Longrightarrow> segment p q (xs @ ys) = segment p q xs"
  by (cases "p \<le> length xs") (auto simp: segment_def)

lemma segment_split: "p \<le> q \<Longrightarrow> q \<le> u \<Longrightarrow> segment p u xs = segment p q xs @ segment q u xs"
  using take_add [of "q - p" "u - q" "drop p xs"] by (simp add: segment_def)

lemma segment_single: "p < length xs \<Longrightarrow> segment p (Suc p) xs = [xs ! p]"
  by (simp add: segment_def take_Suc_conv_app_nth)

definition taken :: "'io event list \<Rightarrow> bytes list" where
  "taken evs = concat (map taken_of evs)"

lemma taken_snoc [simp]: "taken [] = []" "taken (evs @ evs') = taken evs @ taken evs'"
  by (simp_all add: taken_def)

text \<open>
  What the task has taken between two positions of its receiver: some of the broadcasts between
  them in order, all of them when it was never told that it lagged.
\<close>

definition took_between :: "bytes list \<Rightarrow> nat \<Rightarrow> nat \<Rightarrow> 'io event list \<Rightarrow> bool" where
  "took_between sent_to_all p q evs \<longleftrightarrow> p \<le> q \<and> q \<le> length sent_to_all \<and>
     subseq (taken evs) (segment p q sent_to_all) \<and>
     (EvLagged \<notin> set evs \<longrightarrow> taken evs = segment p q sent_to_all)"

lemma took_nothing: "p \<le> length xs \<Longrightarrow> took_between xs p p []"
  by (simp add: took_between_def)

lemma took_more: "took_between xs p q evs \<Longrightarrow> took_between (xs @ ys) p q evs"
  by (simp add: took_between_def segment_append)

lemma took_append:
  "took_between xs p q evs \<Longrightarrow> took_between xs q u evs' \<Longrightarrow> took_between xs p u (evs @ evs')"
  by (auto simp: took_between_def segment_split [of p q u] intro: list_emb_append_mono)

lemma step_took:
  assumes ops: "bc_ops E log receivers pos limit" and step: "node_step E n ev n'"
    and ahead: "none_ahead log pos n" and i: "i < length (tasks n)"
  shows "took_between (log (bcast n')) (pos (snd (tasks n ! i))) (pos (snd (tasks n' ! i))) (of_task i ev)"
proof -
  have le: "pos (snd (tasks n ! i)) \<le> length (log (bcast n))"
    using ahead i by (simp add: none_ahead_def node_receivers_def list_all_iff)
  have "took_between (log (bcast n)) (pos (snd (tasks n ! i))) (pos (snd (tasks n' ! i))) (of_task i ev)"
    using step i
  proof (cases rule: task_of_step)
    case (own tev m m')
    from own(3) le show ?thesis
      by (cases rule: broadcast_channel.poll_cases [OF bc_opsD [OF ops]])
        (use own(1) le in \<open>auto simp: took_between_def segment_single taken_def\<close>)
  next
    case other
    with le show ?thesis by (simp add: took_nothing)
  qed
  then show ?thesis using step_log [OF ops step] by (simp add: took_more)
qed

lemma run_took:
  assumes ops: "bc_ops E log receivers pos limit"
  shows "node_run E s evs t \<Longrightarrow> none_ahead log pos s \<Longrightarrow> i < length (tasks s) \<Longrightarrow>
    none_ahead log pos t \<and>
    took_between (log (bcast t)) (pos (snd (tasks s ! i))) (pos (snd (tasks t ! i))) (task_trace i evs)"
proof (induction rule: run.induct)
  case (none s)
  then show ?case
    by (auto simp: none_ahead_def node_receivers_def list_all_iff intro: took_nothing)
next
  case (more s evs t ev u)
  then have i: "i < length (tasks t)" using node_run_task by blast
  note step = more.hyps(2)
  from more have ahead: "none_ahead log pos t" by blast
  from more have "took_between (log (bcast u)) (pos (snd (tasks s ! i))) (pos (snd (tasks t ! i))) (task_trace i evs)"
    using step_log [OF ops step] by (simp add: took_more)
  from took_append [OF this step_took [OF ops step ahead i]] step_none_ahead [OF ops step ahead]
  show ?case by simp
qed

section \<open>Frames a peer can receive\<close>

text \<open>The greeting, the two answers the protocol knows, and the heartbeat.\<close>

definition node_messages :: "Message list" where
  "node_messages =
     [Handshake \<lparr>message = ''helo'', version = ''0.1.0''\<rparr>,
      Handshake \<lparr>message = ''oleh'', version = ''0.1.0''\<rparr>, Ping \<lparr>ping_message = ''pong''\<rparr>]"

definition allowed_frame :: "('ch, 'e, 'b, 'r, 'iv) node_env \<Rightarrow> bytes \<Rightarrow> bool" where
  "allowed_frame E b \<longleftrightarrow> b = beat E \<or> Some b \<in> set (map (codec_ser (task_env E)) node_messages)"

lemma allowed_frameE:
  assumes "allowed_frame E b"
  obtains "b = beat E" | m where "m \<in> set node_messages" "codec_ser (task_env E) m = Some b"
  using assms unfolding allowed_frame_def set_map by (metis imageE)

lemma response_known:
  "response_for_received msg = Ok (Some reply) \<Longrightarrow>
   reply = Ping \<lparr>ping_message = ''pong''\<rparr> \<or>
   reply = Handshake \<lparr>message = ''oleh'', version = ''0.1.0''\<rparr>"
  by (cases msg) (auto simp: response_defs split: if_splits)

lemma first_frame_helo:
  "first_frame E a = Ok b \<Longrightarrow>
   codec_ser E (Handshake \<lparr>message = ''helo'', version = ''0.1.0''\<rparr>) = Some b"
  by (auto simp: first_frame_def handshake_start_def as_bytes_def outcome_simps)

lemma event_output_allowed:
  assumes "set (taken_of ev) \<subseteq> {beat E}"
  shows "list_all (allowed_frame E) (event_output (task_env E) a ev)"
proof (cases ev)
  case (EvHandshake ok)
  then show ?thesis
    by (cases "first_frame (task_env E) a")
      (auto simp: allowed_frame_def node_messages_def dest: first_frame_helo)
next
  case (EvSelect sel ok)
  then show ?thesis
    using assms
    by (cases sel) (auto simp: allowed_frame_def node_messages_def dest!: response_known
        split: sum.splits outcome.splits option.splits)
qed simp_all

definition frames_ok :: "('ch, 'e, 'b, 'r, 'iv) node_env \<Rightarrow> ('b \<Rightarrow> bytes list) \<Rightarrow> ('ch, 'b, 'r, 'iv) node \<Rightarrow> bool" where
  "frames_ok E log n \<longleftrightarrow> set (log (bcast n)) \<subseteq> {beat E} \<and>
     list_all (\<lambda>l. list_all (allowed_frame E) (sent l)) (links n)"

lemma step_frames:
  assumes ops: "bc_ops E log receivers pos limit" and step: "node_step E n ev n'"
    and ahead: "none_ahead log pos n" and inv: "frames_ok E log n"
  shows "frames_ok E log n'"
proof -
  have log: "set (log (bcast n')) \<subseteq> {beat E}"
    using step_log [OF ops step] inv by (auto simp: frames_ok_def step_sends_def)
  from step show ?thesis
  proof (cases rule: node_cases)
    case (task tev ls l r rs m' l' r')
    have "pos r \<le> length (log (bcast n))"
      using ahead task(2) by (simp add: none_ahead_def node_receivers_def)
    with task(3) have "set (taken_of tev) \<subseteq> set (log (bcast n))"
      by (cases rule: broadcast_channel.poll_cases [OF bc_opsD [OF ops]]) auto
    then have "set (taken_of tev) \<subseteq> {beat E}" using inv by (auto simp: frames_ok_def)
    moreover have "sent l' = sent l @ event_output (task_env E) (peer_addr l) tev"
      using step_output [OF task(4)] by simp
    ultimately show ?thesis
      using task(2,5) inv log event_output_allowed [of tev E "peer_addr l"] by (simp add: frames_ok_def)
  qed (use inv log in \<open>simp_all add: frames_ok_def\<close>)
qed

section \<open>Notifications and resets\<close>

fun is_notify :: "'io node_event \<Rightarrow> bool" where
  "is_notify NotifyOne = True"
| "is_notify _ = False"

fun is_accept :: "'io node_event \<Rightarrow> bool" where
  "is_accept (Accept a) = True"
| "is_accept _ = False"

fun is_reset :: "'io node_event \<Rightarrow> bool" where
  "is_reset (Beat w) = (w = Notified)"
| "is_reset _ = False"

lemma step_permits:
  assumes "node_step E n ev n'"
  shows "(if is_reset ev then 1 else 0) + (if permit n' then 1 else 0) \<le>
         (if is_notify ev then 1 else 0) + (if permit n then 1 else (0::nat))"
  using assms by (cases rule: node_cases) auto

lemma step_notifies:
  assumes "node_step E n ev n'"
  shows "(if is_notify ev then 1 else 0) + (if listener n = Accepting then 1 else 0) =
         (if is_accept ev then 1 else 0) + (if listener n' = Accepting then 1 else (0::nat))"
  using assms by (cases rule: node_cases) auto

lemma run_permits:
  "node_run E s evs t \<Longrightarrow>
   length (filter is_reset evs) + (if permit t then 1 else 0) \<le>
     length (filter is_notify evs) + (if permit s then 1 else 0) \<and>
   length (filter is_notify evs) + (if listener s = Accepting then 1 else 0) =
     length (filter is_accept evs) + (if listener t = Accepting then 1 else 0)"
proof (induction rule: run.induct)
  case (more s evs t ev u)
  have snoc: "length (filter P (evs @ [ev])) = length (filter P evs) + (if P ev then 1 else 0)" for P
    by simp
  from more.IH step_permits [OF more.hyps(2)] step_notifies [OF more.hyps(2)] show ?case
    unfolding snoc by linarith
qed simp

section \<open>Properties\<close>

text \<open>
  C18. The broadcast channel has exactly one receiver per task that can still use it: the connect
  tasks waiting for TCP and the connection tasks that have not left \<open>select!\<close>. No receiver is
  leaked and none is dropped early, on any path, refusals and panics included.
\<close>

theorem receivers_match_tasks:
  assumes "bc_ops E log receivers pos limit" and "receivers b = 0"
    and "node_run E (node_init m b iv peers) evs n"
  shows "receivers (bcast n) =
    length (dialing n) + length (filter (\<lambda>l. phase l \<le> Running) (links n))"
  using run_receivers [OF assms(1,3)] assms(2)
  by (simp add: receiver_owners_def node_init_def holds_receiver_def [abs_def])

lemma receivers_match_tasks_witness:
  "receiver_count (bcast after_visit) =
     length (dialing after_visit) + length (filter (\<lambda>l. phase l \<le> Running) (links after_visit))"
  by (rule receivers_match_tasks [OF sample_bc_ops _ visit_run [unfolded sample_node_def]])
    (simp add: sample_bcast_def)

text \<open>
  C14. A tick of the heartbeat ends the heartbeat task exactly when the table is not empty but
  no connect task is waiting and no connection task is before the end of its \<open>select!\<close>:
  then \<open>send\<close> fails and \<open>expect\<close> panics. Otherwise the task goes on, and when the table is not
  empty its frame has gone out to the receivers.
\<close>

theorem heartbeat_panics_iff:
  assumes ops: "bc_ops E log receivers pos limit" and start: "receivers b = 0"
    and run: "node_run E (node_init m b iv peers) evs n"
    and tick: "node_step E n (Beat Tick) n'"
  shows "(beating n' \<longleftrightarrow>
      num_connections (manager n) = 0 \<or> dialing n \<noteq> [] \<or> (\<exists>l \<in> set (links n). phase l \<le> Running)) \<and>
    log (bcast n') = log (bcast n) @ (if beating n' \<and> num_connections (manager n) > 0 then [beat E] else [])"
proof -
  have count: "receivers (bcast n) = receiver_owners n"
    using run_receivers [OF ops run] start by (simp add: receiver_owners_def node_init_def)
  have owners: "receiver_owners n = 0 \<longleftrightarrow> dialing n = [] \<and> (\<forall>l \<in> set (links n). \<not> phase l \<le> Running)"
    by (simp add: receiver_owners_def filter_empty_conv holds_receiver_def)
  from tick show ?thesis
  proof (cases rule: node_cases)
    case (beat w flow b' iv')
    then have "w = Tick" by simp
    with beat count owners show ?thesis
      by (cases rule: broadcast_channel.iteration_cases [OF bc_opsD [OF ops] beat(4)]) auto
  qed simp_all
qed

lemma heartbeat_panics_iff_witness:
  "\<exists>n n'. node_run sample_node_env (sample_node 1 []) (visit @ [Elapse 1]) n \<and>
     node_step sample_node_env n (Beat Tick :: unit node_event) n' \<and> beating n'"
proof -
  let ?n = "after_visit\<lparr>clock := 2\<rparr>"
  have run: "node_run sample_node_env (sample_node 1 []) (visit @ [Elapse 1]) ?n"
    by (rule run.more [OF visit_run]) (simp add: after_visit_eq sample_node_defs)
  obtain n' where tick: "node_step sample_node_env ?n (Beat Tick :: unit node_event) n'"
    by (simp add: after_visit_eq sample_node_defs)
  from heartbeat_panics_iff [OF sample_bc_ops _ run [unfolded sample_node_def] tick]
  have "beating n'" by (simp add: after_visit_eq sample_bcast_def less_eq_phase_def)
  with run tick show ?thesis by blast
qed

text \<open>
  C32. That panic is reachable: when the only peer has closed its connection, the task drops its
  broadcast receiver at the end of \<open>select!\<close> and removes its table entry only after closing the
  writer; a tick in between finds a connection but no receiver. The heartbeat task is then
  gone for good while the node still listens, and the next peer gets no heartbeat.
\<close>

theorem heartbeat_panic_reachable:
  "\<exists>evs n evs' n'.
     node_run sample_node_env (sample_node 1 []) (evs :: unit node_event list) n \<and>
     beating n \<and> map phase (links n) = [Draining] \<and> num_connections (manager n) = 1 \<and>
     node_run sample_node_env n (Beat Tick # evs' :: unit node_event list) n' \<and>
     main_running n' \<and> \<not> beating n' \<and> map phase (links n') = [Finished, Running] \<and> sent_values (bcast n') = []"
proof -
  define start :: "nat \<Rightarrow> SocketAddr \<Rightarrow> unit node_event list" where
    "start i a = [NotifyOne, Accept (Some a), OfTask i (EvInsert \<lparr>created_at = 0\<rparr>),
       OfTask i (EvHandshake True)]" for i a
  let ?evs = "ListenBind True # start 0 (V4 10 0 0 1 5000) @ [OfTask 0 (EvRead None)]"
  let ?evs' = "[OfTask 0 EvCloseWriter, OfTask 0 EvRemove] @ start 1 (V4 10 0 0 2 5000)"
  obtain n n' where "run_fun (node_next sample_node_env) ?evs (sample_node 1 []) = Some n \<and>
     beating n \<and> map phase (links n) = [Draining] \<and> num_connections (manager n) = 1 \<and>
     run_fun (node_next sample_node_env) (Beat Tick # ?evs') n = Some n' \<and>
     main_running n' \<and> \<not> beating n' \<and> map phase (links n') = [Finished, Running] \<and> sent_values (bcast n') = []"
    by (simp add: start_def sample_node_defs)
  then show ?thesis unfolding node.run_iff
    by - (rule exI [of _ ?evs], rule exI [of _ n], rule exI [of _ ?evs'], rule exI [of _ n'], assumption)
qed

text \<open>
  C33. Handling messages never resets the heartbeat's interval: the resets of any run are at most
  one more than the accepts of the listener, however many messages the connection tasks
  handled, because \<open>notifier.notified()\<close> in the handler makes a future and drops it.
\<close>

theorem resets_come_from_accepts:
  assumes "node_run E (node_init m b iv peers) evs n"
  shows "length (filter is_reset evs) \<le> length (filter is_accept evs) + 1"
  using run_permits [OF assms] by (simp add: node_init_def split: if_splits)

lemma resets_come_from_accepts_witness:
  "length (filter is_reset visit) \<le> length (filter is_accept visit) + 1"
  by (rule resets_come_from_accepts [OF visit_run [unfolded sample_node_def]])

text \<open>
  C27. A peer only ever receives four frames from this node: the handshake's greeting, its answer
  to a greeting, its answer to a ping, and the heartbeat. Nothing a peer sends, and nothing
  another peer sends, can make the node emit anything else.
\<close>

theorem peers_receive_only_protocol_frames:
  assumes ops: "bc_ops E log receivers pos limit" and start: "log b = []"
    and run: "node_run E (node_init m b iv peers) evs n"
  shows "list_all (\<lambda>l. list_all (allowed_frame E) (sent l)) (links n)"
proof -
  have "preserved (node_step E) (\<lambda>n. none_ahead log pos n \<and> frames_ok E log n)"
    by (rule preserved.intro) (blast intro: step_none_ahead [OF ops] step_frames [OF ops])
  from preserved.run_keeps [OF this run] start show ?thesis
    by (simp add: node_init_def none_ahead_def node_receivers_def frames_ok_def)
qed

lemma peers_receive_only_protocol_frames_witness:
  "allowed_frame sample_node_env hello_frame \<and> allowed_frame sample_node_env [2, 0]"
  using peers_receive_only_protocol_frames [OF sample_bc_ops _ visit_run [unfolded sample_node_def]]
  by (simp add: after_visit_eq sample_bcast_def)

text \<open>
  C19. A connection task takes the broadcasts in the order they were sent and none of them twice:
  from any point of its life to any later one, what it took is a subsequence of what lies between
  the two positions of its receiver, and exactly that as long as the channel never told it that
  it lagged.
\<close>

theorem broadcasts_taken_in_order:
  assumes ops: "bc_ops E log receivers pos limit" and start: "log b = []"
    and reach: "node_run E (node_init m b iv peers) evs0 n0" and i: "i < length (tasks n0)"
    and run: "node_run E n0 evs n"
    and ends: "p = pos (snd (tasks n0 ! i))" "q = pos (snd (tasks n ! i))"
  shows "p \<le> q \<and> q \<le> length (log (bcast n)) \<and>
    subseq (taken (task_trace i evs)) (take (q - p) (drop p (log (bcast n)))) \<and>
    (EvLagged \<notin> set (task_trace i evs) \<longrightarrow>
       taken (task_trace i evs) = take (q - p) (drop p (log (bcast n))))"
proof -
  have "none_ahead log pos (node_init m b iv peers)"
    using start by (simp add: none_ahead_def node_receivers_def node_init_def)
  then have "none_ahead log pos n0"
    using preserved.run_keeps [OF preserved.intro reach] step_none_ahead [OF ops] by blast
  from run_took [OF ops run this i] ends show ?thesis
    by (simp add: took_between_def segment_def)
qed

text \<open>A peer that stays silent while four heartbeats pass by, with room for two, and a fifth after.\<close>

definition connect_peer :: "unit node_event list" where
  "connect_peer =
     [ListenBind True, NotifyOne, Accept (Some (V4 10 0 0 1 5000)),
      OfTask 0 (EvInsert \<lparr>created_at = 0\<rparr>), OfTask 0 (EvHandshake True)]"

definition too_slow :: "unit node_event list" where
  "too_slow = Elapse 9 # replicate 4 (Beat Tick) @ [OfTask 0 EvLagged]"

definition connected_node :: "(queue, sent_log, nat, Interval) node" where
  "connected_node = the (run_fun (node_next sample_node_env) connect_peer (sample_node 1 []))"

definition lagged_node :: "(queue, sent_log, nat, Interval) node" where
  "lagged_node = the (run_fun (node_next sample_node_env) too_slow connected_node)"

lemma connected_computes:
  "run_fun (node_next sample_node_env) connect_peer (sample_node 1 []) =
     Some \<lparr>manager = \<lparr>capacity = 1, shared_state = [(V4 10 0 0 1 5000, \<lparr>created_at = 0\<rparr>)]\<rparr>,
       tasks = [(\<lparr>peer_addr = V4 10 0 0 1 5000, phase = Running,
                  chan = \<lparr>items = [], size_limit = 2, shut = False\<rparr>, sent = [hello_frame],
                  listens = True\<rparr>, 0)],
       bcast = \<lparr>sent_values = [], window = 2, receiver_count = 1\<rparr>, to_dial = [], dialing = [],
       listener = Notifying, beating = True, interval = \<lparr>due_at = 0, every = 1\<rparr>, clock = 0,
       permit = True\<rparr>"
  by (simp add: connect_peer_def sample_node_defs)

lemmas connected_node_eq = connected_node_def [unfolded connected_computes option.sel]

lemma lagged_computes:
  "run_fun (node_next sample_node_env) too_slow connected_node =
     Some (connected_node\<lparr>tasks := [((links connected_node ! 0)\<lparr>listens := False\<rparr>, 2)],
       bcast := \<lparr>sent_values = [[2, 0], [2, 0], [2, 0], [2, 0]], window = 2, receiver_count = 1\<rparr>,
       interval := \<lparr>due_at = 4, every = 1\<rparr>, clock := 9\<rparr>)"
  by (simp add: too_slow_def connected_node_eq sample_node_defs numeral_eq_Suc)

lemma connected_run: "node_run sample_node_env (sample_node 1 []) connect_peer connected_node"
  by (simp add: node.run_iff connected_node_def connected_computes)

lemma lagged_run: "node_run sample_node_env connected_node too_slow lagged_node"
  by (simp add: node.run_iff lagged_node_def lagged_computes)

lemmas lagged_node_eq = lagged_node_def [unfolded lagged_computes option.sel]

lemma broadcasts_taken_in_order_witness:
  "subseq (taken (task_trace 0 too_slow)) (take 2 (sent_values (bcast lagged_node)))"
  using broadcasts_taken_in_order [OF sample_bc_ops _ connected_run [unfolded sample_node_def] _
      lagged_run refl refl, of 0]
  by (simp add: sample_bcast_def connected_node_eq lagged_node_eq)

text \<open>
  C24. A peer whose task once lagged behind the broadcast channel and that then stays silent gets no
  further heartbeat for as long as the node runs: however many are sent, and whatever all other
  tasks do, nothing more is sent to that peer until its task handles a message of it.
\<close>

theorem lagged_silent_peer_is_forgotten:
  assumes "node_run E n evs n'" and "i < length (tasks n)"
    and "phase (links n ! i) = Running" "\<not> listens (links n ! i)"
    and "handled (task_trace i evs) = []"
  shows "sent (links n' ! i) = sent (links n ! i) \<and> \<not> listens (links n' ! i)"
proof -
  have "i < length (tasks n')"
    and "link_run (task_env E) (links n ! i) (task_trace i evs) (links n' ! i)"
    using node_run_task [OF assms(1,2)] assms(2) by simp_all
  with run_deaf [OF this(2)] assms(3-5) show ?thesis by simp
qed

text \<open>The lag is reachable, and the heartbeat task itself goes on.\<close>

lemma lagged_silent_peer_is_forgotten_witness:
  "node_run sample_node_env (sample_node 1 []) (connect_peer @ too_slow) lagged_node \<and>
   (\<exists>n'. node_run sample_node_env lagged_node (Elapse 9 # replicate 9 (Beat Tick :: unit node_event)) n' \<and>
      beating n' \<and> length (sent_values (bcast n')) = 13 \<and> sent (links n' ! 0) = [hello_frame])"
proof -
  obtain n' where run: "node_run sample_node_env lagged_node (Elapse 9 # replicate 9 (Beat Tick :: unit node_event)) n'"
    and "beating n' \<and> length (sent_values (bcast n')) = 13"
    unfolding node.run_iff by (simp add: lagged_node_eq connected_node_eq sample_node_defs numeral_eq_Suc)
  moreover from lagged_silent_peer_is_forgotten [OF run, of 0] have "sent (links n' ! 0) = [hello_frame]"
    by (simp add: lagged_node_eq connected_node_eq task_trace_def handled_def)
  ultimately show ?thesis using run_append [OF lagged_run connected_run] by blast
qed

end
