(* ===== verification/Service.thy ===== *)
theory Service
  imports Membership Delivery
begin

text \<open>
  What the node promises to the network operator, as an abstract service: a set of members with
  a bound, which announces itself to its members. The running node refines it: \<open>service_of\<close> is
  the abstraction, \<open>node_actions\<close> what a step of a task means for the service; most steps mean
  nothing.
\<close>

section \<open>The service\<close>

record service =
  members :: "SocketAddr set"
  announcing :: bool

datatype action =
    Join SocketAddr
  | Refuse SocketAddr
  | Leave SocketAddr
  | Announce
  | FallSilent

inductive service_step :: "nat \<Rightarrow> service \<Rightarrow> action \<Rightarrow> service \<Rightarrow> bool" for bound where
  join: "a \<notin> members s \<Longrightarrow> card (members s) < bound \<Longrightarrow>
    service_step bound s (Join a) (s\<lparr>members := insert a (members s)\<rparr>)"
| refuse: "a \<notin> members s \<Longrightarrow> card (members s) = bound \<Longrightarrow> service_step bound s (Refuse a) s"
| leave: "a \<in> members s \<Longrightarrow>
    service_step bound s (Leave a) (s\<lparr>members := members s - {a}\<rparr>)"
| announce: "members s \<noteq> {} \<Longrightarrow> announcing s \<Longrightarrow> service_step bound s Announce s"
| fall_silent: "members s \<noteq> {} \<Longrightarrow> announcing s \<Longrightarrow>
    service_step bound s FallSilent (s\<lparr>announcing := False\<rparr>)"

inductive_cases service_JoinE [elim!]: "service_step bound s (Join a) t"
inductive_cases service_LeaveE [elim!]: "service_step bound s (Leave a) t"

text \<open>The bound holds, and who is a member is determined by the joins and leaves.\<close>

interpretation bounded_service: preserved "service_step bound"
    "\<lambda>s. finite (members s) \<and> card (members s) \<le> bound" for bound
proof unfold_locales
  fix s ev t
  assume "service_step bound s ev t" and "finite (members s) \<and> card (members s) \<le> bound"
  then show "finite (members t) \<and> card (members t) \<le> bound"
    by cases (auto intro: order_trans [OF card_Diff1_le])
qed

lemma service_counts:
  "run (service_step bound) s evs t \<Longrightarrow>
   count_list evs (Join a) + (if a \<in> members s then 1 else 0) =
   count_list evs (Leave a) + (if a \<in> members t then 1 else 0)"
proof (induction rule: run.induct)
  case (more s evs t ev u)
  from more.hyps(2) more.IH show ?case by cases auto
qed simp

fun is_join :: "action \<Rightarrow> bool" where
  "is_join (Join a) = True"
| "is_join _ = False"

fun is_leave :: "action \<Rightarrow> bool" where
  "is_leave (Leave a) = True"
| "is_leave _ = False"

lemma service_step_total:
  "service_step bound s ev t \<Longrightarrow> finite (members s) \<Longrightarrow>
   finite (members t) \<and>
   (if is_join ev then 1 else 0) + card (members s) = (if is_leave ev then 1 else 0) + card (members t)"
proof (induction rule: service_step.induct)
  case (leave a s)
  then have "card (members s) = Suc (card (members s - {a}))"
    by (intro card.remove) simp_all
  with leave(2) show ?case by simp
qed simp_all

lemma service_total:
  "run (service_step bound) s evs t \<Longrightarrow> finite (members s) \<Longrightarrow>
   finite (members t) \<and>
   length (filter is_join evs) + card (members s) = length (filter is_leave evs) + card (members t)"
proof (induction rule: run.induct)
  case (more s evs t ev u)
  then have fin: "finite (members t)"
    and ih: "length (filter is_join evs) + card (members s) = length (filter is_leave evs) + card (members t)"
    by simp_all
  have snoc: "length (filter P (evs @ [ev])) = length (filter P evs) + (if P ev then 1 else 0)" for P
    by simp
  show ?case
    unfolding snoc using ih service_step_total [OF more.hyps(2) fin] by auto
qed simp

text \<open>A service that fell silent stays so.\<close>

lemma service_silent:
  "run (service_step bound) s evs t \<Longrightarrow> \<not> announcing s \<Longrightarrow>
   \<not> announcing t \<and> Announce \<notin> set evs \<and> FallSilent \<notin> set evs"
proof (induction rule: run.induct)
  case (more s evs t ev u)
  from more.hyps(2) more.IH more.prems show ?case by cases auto
qed simp

section \<open>The node as a service\<close>

definition service_of :: "('ch, 'b, 'r, 'iv) node \<Rightarrow> service" where
  "service_of n = \<lparr>members = dom (manager_get (manager n)), announcing = beating n\<rparr>"

fun task_actions :: "'ch link \<Rightarrow> 'io event \<Rightarrow> action list" where
  "task_actions l' (EvInsert md) =
     [if phase l' = Registered then Join (peer_addr l') else Refuse (peer_addr l')]"
| "task_actions l' EvRemove = [Leave (peer_addr l')]"
| "task_actions l' _ = []"

fun node_actions ::
    "('ch, 'b, 'r, 'iv) node \<Rightarrow> 'io node_event \<Rightarrow> ('ch, 'b, 'r, 'iv) node \<Rightarrow> action list" where
  "node_actions n (OfTask i ev) n' = task_actions (links n' ! i) ev"
| "node_actions n (Beat w) n' =
     (if w = Tick \<and> num_connections (manager n) > 0
      then [if beating n' then Announce else FallSilent] else [])"
| "node_actions n _ n' = []"

lemma task_service:
  assumes step: "task_step E (m, l) ev (m', l')" and wf: "manager_wf m"
    and new: "phase l = Spawned \<Longrightarrow> manager_get m (peer_addr l) = None"
    and own: "phase l = WriterClosed \<Longrightarrow> manager_get m (peer_addr l) \<noteq> None"
  shows "run (service_step (unat (capacity m))) \<lparr>members = dom (manager_get m), announcing = on\<rparr>
    (task_actions l' ev) \<lparr>members = dom (manager_get m'), announcing = on\<rparr>"
  using step
proof (cases rule: task_step.cases)
  case (refuse md e)
  from refuse(4) wf have "m' = m \<and> unat (capacity m) = card (dom (manager_get m))"
    by (cases rule: mgr.ins_cases) simp_all
  then show ?thesis
    using refuse new by (auto intro!: run_single service_step.refuse)
next
  case (register md old)
  from register(4) wf show ?thesis
  proof (cases rule: mgr.ins_cases)
    case room
    have "service_step (unat (capacity m)) \<lparr>members = dom (manager_get m), announcing = on\<rparr>
        (Join (peer_addr l)) (\<lparr>members = dom (manager_get m), announcing = on\<rparr>
          \<lparr>members := insert (peer_addr l) (dom (manager_get m))\<rparr>)"
      using new register(3) room(5) service_step.join
        [of "peer_addr l" "\<lparr>members = dom (manager_get m), announcing = on\<rparr>"] by auto
    with register room(4) show ?thesis by (auto intro!: run_single)
  qed simp
next
  case (remove old)
  from remove(4) wf have "manager_get m' = (manager_get m)(peer_addr l := None)"
    by (cases rule: mgr.rem_cases) simp_all
  moreover have "service_step (unat (capacity m)) \<lparr>members = dom (manager_get m), announcing = on\<rparr>
      (Leave (peer_addr l)) (\<lparr>members = dom (manager_get m), announcing = on\<rparr>
        \<lparr>members := dom (manager_get m) - {peer_addr l}\<rparr>)"
    using own remove(3) service_step.leave
      [of "peer_addr l" "\<lparr>members = dom (manager_get m), announcing = on\<rparr>"] by auto
  ultimately show ?thesis using remove by (auto intro!: run_single)
qed (auto intro: run.none)

text \<open>The table is exact, as in theory Membership; this is the invariant of the refinement.\<close>

definition table_exact :: "usize \<Rightarrow> ('ch, 'b, 'r, 'iv) node \<Rightarrow> bool" where
  "table_exact cap n \<longleftrightarrow> manager_wf (manager n) \<and> capacity (manager n) = cap \<and>
     dom (manager_get (manager n)) = set (registered_addrs n)"

lemma step_table_exact:
  assumes "node_step E n ev n'" and "table_exact cap n" and "distinct (map peer_addr (links n'))"
  shows "table_exact cap n'"
  using step_table [OF assms(1) _ step_distinct [OF assms(1,3)]] node_table.step_keeps [OF assms(1)]
    assms(2) by (auto simp: table_exact_def)

lemma step_service:
  assumes step: "node_step E n ev n'" and exact: "table_exact cap n"
    and dist: "distinct (map peer_addr (links n'))"
  shows "run (service_step (unat cap)) (service_of n) (node_actions n ev n') (service_of n')"
  using step
proof (cases rule: node_cases)
  case (task tev ls l r rs m' l' r')
  have wf: "manager_wf (manager n)" and cap: "capacity (manager n) = cap"
    and table: "dom (manager_get (manager n)) = set (registered_addrs n)"
    using exact by (simp_all add: table_exact_def)
  have d: "distinct (map peer_addr (links n))" by (rule step_distinct [OF step dist])
  have new: "manager_get (manager n) (peer_addr l) = None" if "phase l = Spawned"
  proof -
    have "peer_addr l \<notin> set (registered_addrs n)"
      using d task(2) that by (auto simp: registered_addrs_def in_table_def)
    then show ?thesis using table by blast
  qed
  have own: "manager_get (manager n) (peer_addr l) \<noteq> None" if "phase l = WriterClosed"
  proof -
    have "peer_addr l \<in> set (registered_addrs n)"
      using task(2) that by (simp add: registered_addrs_def in_table_def)
    then show ?thesis using table by blast
  qed
  from task_service [OF task(4) wf new own, where on = "beating n"] task cap show ?thesis
    by (simp add: service_of_def nth_append)
next
  case (beat w flow b' iv')
  have wf: "manager_wf (manager n)" using exact by (simp add: table_exact_def)
  have nonempty: "dom (manager_get (manager n)) \<noteq> {}" if "num_connections (manager n) > 0"
    using mgr.num_card [OF wf] that by (auto simp: word_less_nat_alt)
  show ?thesis
  proof (cases "w = Tick \<and> num_connections (manager n) > 0")
    case True
    have "members (service_of n) \<noteq> {}" "announcing (service_of n)"
      using nonempty True beat(2) by (simp_all add: service_of_def)
    then have "service_step (unat cap) (service_of n) Announce (service_of n)"
      "service_step (unat cap) (service_of n) FallSilent (service_of n\<lparr>announcing := False\<rparr>)"
      by (rule service_step.announce service_step.fall_silent; assumption)+
    with True beat show ?thesis by (auto simp: service_of_def intro!: run_single)
  next
    case False
    with beat have "flow = Continue" by (auto simp: heartbeat_iteration_def split: wakeup.splits)
    with False beat show ?thesis by (auto simp: service_of_def intro: run.none)
  qed
qed (simp_all add: service_of_def run.none)

interpretation node_service: simulation "node_next E" node_actions "service_step (unat cap)" service_of
    "table_exact cap" "\<lambda>n. distinct (map peer_addr (links n))" for E cap
  by unfold_locales (rule step_distinct step_table_exact step_service; assumption)+

lemma service_start:
  "table_exact cap (node_init (manager_new cap) b iv peers)"
  "service_of (node_init m b iv peers) = \<lparr>members = dom (manager_get m), announcing = True\<rparr>"
  "dom (manager_get (manager_new cap)) = {}"
  by (simp_all add: table_exact_def service_of_def node_init_def manager_new_def manager_wf_def
      registered_addrs_def manager_get_def [abs_def])

lemma service_run:
  assumes run: "node_run E (node_init (manager_new cap) b iv peers) evs n"
    and dist: "distinct (map peer_addr (links n))"
  shows "run (service_step (unat cap)) \<lparr>members = {}, announcing = True\<rparr>
    (observe (node_next E) node_actions evs (node_init (manager_new cap) b iv peers)) (service_of n)"
  using node_service.refines [OF run [unfolded node.run_iff] service_start(1) dist]
  by (simp only: service_start(2,3))

text \<open>The broadcasts of the node are its announcements, and silence is for ever.\<close>

lemma step_announces:
  assumes "node_step E n ev n'"
  shows "step_sends E n ev n' = replicate (count_list (node_actions n ev n') Announce) (beat E)"
proof (cases ev)
  case (OfTask i tev)
  then show ?thesis by (cases tev) (simp_all add: step_sends_def)
qed (auto simp: step_sends_def)

lemma run_announces:
  assumes ops: "bc_ops E log receivers pos limit"
  shows "node_run E s evs t \<Longrightarrow>
    log (bcast t) = log (bcast s) @ replicate (count_list (observe (node_next E) node_actions evs s) Announce) (beat E)"
proof (induction rule: run.induct)
  case (more s evs t ev u)
  have "observe (node_next E) node_actions (evs @ [ev]) s =
      observe (node_next E) node_actions evs s @ node_actions t ev u"
    using observe_append [OF more.hyps(1) [unfolded node.run_iff], of node_actions "[ev]"] more.hyps(2) by simp
  with more.IH step_log [OF ops more.hyps(2)] step_announces [OF more.hyps(2)] show ?case
    by (simp add: replicate_add)
qed simp

lemma step_silent:
  assumes "node_step E n ev n'" and "\<not> beating n"
  shows "\<not> beating n' \<and> step_sends E n ev n' = []"
  using assms(1) by (cases rule: node_cases) (use assms(2) in \<open>simp_all add: step_sends_def\<close>)

section \<open>Properties\<close>

text \<open>
  C1. As long as the peers' addresses are distinct, the whole node, all its tasks interleaved, is a
  bounded membership service: every run of it, seen through what its steps mean, is a run of the
  service from the empty membership; nobody joins twice or beyond the bound, refusals happen
  only when it is full, only members leave, and it announces only to members, until it falls silent.
\<close>

theorem node_refines_service:
  assumes "node_run E (node_init (manager_new cap) b iv peers) evs n"
    and "distinct (map peer_addr (links n))"
  shows "run (service_step (unat cap)) \<lparr>members = {}, announcing = True\<rparr>
    (observe (node_next E) node_actions evs (node_init (manager_new cap) b iv peers)) (service_of n)"
  using assms by (rule service_run)

lemma visit_actions:
  "observe (node_next sample_node_env) node_actions visit (sample_node 1 []) =
     [Join (V4 10 0 0 1 5000), Announce]"
  by (simp add: visit_def sample_node_defs handler_iteration_def)

lemma node_refines_service_witness:
  "run (service_step 1) \<lparr>members = {}, announcing = True\<rparr> [Join (V4 10 0 0 1 5000), Announce]
     (service_of after_visit)"
  using node_refines_service [OF visit_run [unfolded sample_node_def]]
    visit_actions [unfolded sample_node_def]
  by (simp add: after_visit_eq)

text \<open>
  C28. Every registration is undone at most once and only by its own peer's removal: in any run with
  distinct peers, each address has joined exactly as often as it has left, plus once if it is in
  the table now; and \<open>num_connections\<close> is the number of joins less the number of leaves.
\<close>

theorem joins_match_leaves:
  assumes run: "node_run E (node_init (manager_new cap) b iv peers) evs n"
    and dist: "distinct (map peer_addr (links n))"
    and acts: "acts = observe (node_next E) node_actions evs (node_init (manager_new cap) b iv peers)"
  shows "count_list acts (Join a) =
      count_list acts (Leave a) + (if manager_get (manager n) a \<noteq> None then 1 else 0) \<and>
    length (filter is_join acts) = length (filter is_leave acts) + unat (num_connections (manager n))"
proof -
  have "run (service_step (unat cap)) \<lparr>members = {}, announcing = True\<rparr> acts (service_of n)"
    unfolding acts using run dist by (rule service_run)
  note counts = service_counts [OF this, of a] service_total [OF this]
  have "manager_wf (manager n) \<and> capacity (manager n) = cap"
    by (rule node_table.run_keeps [OF run]) (simp add: node_init_def manager_new_def manager_wf_def)
  with counts mgr.num_card [of "manager n"] show ?thesis
    by (auto simp: service_of_def)
qed

lemma joins_match_leaves_witness:
  "length (filter is_join [Join (V4 10 0 0 1 5000), Announce]) = unat (num_connections (manager after_visit))"
  using joins_match_leaves [OF visit_run [unfolded sample_node_def] _
      visit_actions [unfolded sample_node_def, symmetric], of "V4 10 0 0 1 5000"]
  by (simp add: after_visit_eq)

text \<open>
  The broadcasts of the node are exactly its announcements, each the one heartbeat frame main
  prepared; and once the heartbeat task has ended the node is silent for ever: whatever happens
  afterwards, nothing is broadcast again.
\<close>

theorem heartbeats_until_silence:
  assumes ops: "bc_ops E log receivers pos limit" and start: "log b = []"
    and run: "node_run E (node_init m b iv peers) evs n" and later: "node_run E n evs' n'"
  shows "log (bcast n) =
      replicate (count_list (observe (node_next E) node_actions evs (node_init m b iv peers)) Announce) (beat E) \<and>
    (\<not> beating n \<longrightarrow> \<not> beating n' \<and> log (bcast n') = log (bcast n))"
proof -
  have "preserved (node_step E) (\<lambda>t. \<not> beating t \<and> log (bcast t) = log (bcast n))"
    by (rule preserved.intro) (use step_silent step_log [OF ops] in fastforce)
  then have "\<not> beating n' \<and> log (bcast n') = log (bcast n)" if "\<not> beating n"
    by (rule preserved.run_keeps [OF _ later]) (simp add: that)
  with run_announces [OF ops run] start show ?thesis by (simp add: node_init_def)
qed

lemma heartbeats_until_silence_witness:
  "sent_values (bcast after_visit) = replicate (count_list [Join (V4 10 0 0 1 5000), Announce] Announce) [2, 0]"
  using heartbeats_until_silence [OF sample_bc_ops _ visit_run [unfolded sample_node_def] run.none]
    visit_actions [unfolded sample_node_def]
  by (simp add: sample_bcast_def after_visit_eq sample_node_env_def)

end
