(* ===== verification/Config.thy ===== *)
theory Config
  imports Printing
begin

text \<open>
  The crate \<open>config\<close> (node/config/src/lib.rs): the configuration records with their defaults,
  what the \<open>serde(default)\<close> attributes fill in, loading from a file and the bind address.
  File access is the pair \<open>open_file\<close>, \<open>read_to_string\<close> of the environment. The TOML parser is
  the parameter \<open>toml\<close>: it reads a document into the fields it gives (None: the field or
  section is missing), or fails. \<open>parse_config_from_string\<close> asks it for an \<open>Option<Config>\<close>,
  so its success value is an option too.
\<close>

section \<open>Records and defaults\<close>

record NetworkConfig =
  bind :: string
  port :: usize

record PeerConfig =
  seeds :: "string list"
  max_peer_count :: usize
  max_pending_messages :: usize
  max_pending_send_to_all :: usize
  heartbeat_interval :: u64

record Config =
  network :: NetworkConfig
  peer :: PeerConfig

definition NetworkConfig_default :: NetworkConfig where
  "NetworkConfig_default = \<lparr>bind = ''localhost'', port = 6680\<rparr>"

definition PeerConfig_default :: PeerConfig where
  "PeerConfig_default =
     \<lparr>seeds = [], max_peer_count = 10, max_pending_messages = 32,
      max_pending_send_to_all = 128, heartbeat_interval = 1000\<rparr>"

text \<open>The derived \<open>Default\<close> of \<open>Config\<close>: the default of each field.\<close>

definition Config_default :: Config where
  "Config_default = \<lparr>network = NetworkConfig_default, peer = PeerConfig_default\<rparr>"

definition default_bind :: string where
  "default_bind = bind NetworkConfig_default"

definition default_port :: usize where
  "default_port = port NetworkConfig_default"

definition default_seeds :: "string list" where
  "default_seeds = seeds PeerConfig_default"

definition default_max_peer_count :: usize where
  "default_max_peer_count = max_peer_count PeerConfig_default"

definition default_max_pending_messages :: usize where
  "default_max_pending_messages = max_pending_messages PeerConfig_default"

definition default_max_pending_send_to_all :: usize where
  "default_max_pending_send_to_all = max_pending_send_to_all PeerConfig_default"

definition default_heartbeat_interval :: u64 where
  "default_heartbeat_interval = heartbeat_interval PeerConfig_default"

lemmas default_defs =
  NetworkConfig_default_def PeerConfig_default_def Config_default_def
  default_bind_def default_port_def default_seeds_def default_max_peer_count_def
  default_max_pending_messages_def default_max_pending_send_to_all_def
  default_heartbeat_interval_def

section \<open>Missing fields\<close>

text \<open>What a document gives: every field and section may be missing.\<close>

record NetworkFields =
  given_bind :: "string option"
  given_port :: "usize option"

record PeerFields =
  given_seeds :: "string list option"
  given_max_peer_count :: "usize option"
  given_max_pending_messages :: "usize option"
  given_max_pending_send_to_all :: "usize option"
  given_heartbeat_interval :: "u64 option"

record ConfigFields =
  given_network :: "NetworkFields option"
  given_peer :: "PeerFields option"

fun or_default :: "'a \<Rightarrow> 'a option \<Rightarrow> 'a" where
  "or_default d None = d"
| "or_default d (Some x) = x"

definition fill_network :: "NetworkFields \<Rightarrow> NetworkConfig" where
  "fill_network f =
     \<lparr>bind = or_default default_bind (given_bind f),
      port = or_default default_port (given_port f)\<rparr>"

definition fill_peer :: "PeerFields \<Rightarrow> PeerConfig" where
  "fill_peer f =
     \<lparr>seeds = or_default default_seeds (given_seeds f),
      max_peer_count = or_default default_max_peer_count (given_max_peer_count f),
      max_pending_messages =
        or_default default_max_pending_messages (given_max_pending_messages f),
      max_pending_send_to_all =
        or_default default_max_pending_send_to_all (given_max_pending_send_to_all f),
      heartbeat_interval = or_default default_heartbeat_interval (given_heartbeat_interval f)\<rparr>"

definition fill_config :: "ConfigFields \<Rightarrow> Config" where
  "fill_config f =
     \<lparr>network = (case given_network f of None \<Rightarrow> NetworkConfig_default | Some n \<Rightarrow> fill_network n),
      peer = (case given_peer f of None \<Rightarrow> PeerConfig_default | Some p \<Rightarrow> fill_peer p)\<rparr>"

text \<open>The fields of a configuration written out in full, as a document would give them.\<close>

definition all_fields :: "Config \<Rightarrow> ConfigFields" where
  "all_fields c =
     \<lparr>given_network = Some \<lparr>given_bind = Some (bind (network c)), given_port = Some (port (network c))\<rparr>,
      given_peer = Some
        \<lparr>given_seeds = Some (seeds (peer c)),
         given_max_peer_count = Some (max_peer_count (peer c)),
         given_max_pending_messages = Some (max_pending_messages (peer c)),
         given_max_pending_send_to_all = Some (max_pending_send_to_all (peer c)),
         given_heartbeat_interval = Some (heartbeat_interval (peer c))\<rparr>\<rparr>"

lemma or_default_same [simp]: "or_default d (if b then Some d else None) = d"
  by simp

lemma fill_all_fields [simp]: "fill_config (all_fields c) = c"
  by (cases c) (simp add: fill_config_def all_fields_def fill_network_def fill_peer_def)

lemma fill_empty_network [simp]:
  "fill_network \<lparr>given_bind = None, given_port = None\<rparr> = NetworkConfig_default"
  by (simp add: fill_network_def default_defs)

lemma fill_empty_peer [simp]:
  "fill_peer \<lparr>given_seeds = None, given_max_peer_count = None, given_max_pending_messages = None,
     given_max_pending_send_to_all = None, given_heartbeat_interval = None\<rparr> = PeerConfig_default"
  by (simp add: fill_peer_def default_defs)

section \<open>Loading\<close>

definition parse_config_from_string ::
    "(string \<Rightarrow> 'e + ConfigFields option) \<Rightarrow> string \<Rightarrow> Config option" where
  "parse_config_from_string toml contents =
     (case map_sum (\<lambda>e. e) (map_option fill_config) (toml contents) of
        Inr config \<Rightarrow> config
      | Inl e \<Rightarrow> None)"

definition read_file ::
    "(string \<Rightarrow> 'io + 'file) \<Rightarrow> ('file \<Rightarrow> 'io + string) \<Rightarrow> string \<Rightarrow> 'io + string" where
  "read_file open_file read_to_string path =
     (case open_file path of
        Inl e \<Rightarrow> Inl e
      | Inr file \<Rightarrow> (case read_to_string file of Inl e \<Rightarrow> Inl e | Inr contents \<Rightarrow> Inr contents))"

definition load_config_from_file ::
    "(string \<Rightarrow> 'io + 'file) \<Rightarrow> ('file \<Rightarrow> 'io + string) \<Rightarrow> (string \<Rightarrow> 'e + ConfigFields option)
     \<Rightarrow> string \<Rightarrow> Config option" where
  "load_config_from_file open_file read_to_string toml path =
     (case read_file open_file read_to_string path of
        Inl e \<Rightarrow> Some Config_default
      | Inr contents \<Rightarrow> parse_config_from_string toml contents)"

definition get_bind_address :: "NetworkConfig \<Rightarrow> string" where
  "get_bind_address network_config =
     (bind network_config @ '':'') @ dec (port network_config)"

lemma split_bind_address [simp]:
  "split_last CHR '':'' (get_bind_address n) = (bind n, dec (port n))"
  by (simp add: get_bind_address_def)

lemma bind_address_colon [simp]: "CHR '':'' \<in> set (get_bind_address n)"
  by (simp add: get_bind_address_def)

section \<open>Properties\<close>

text \<open>
  Loading never invents a configuration. An unreadable file gives the defaults; a readable
  file gives a configuration exactly when the parser accepts it, and then every field is the
  one the document gives, or that field's default when the field or its section is missing.
\<close>

theorem load_config_branches:
  "load_config_from_file open_file read_to_string toml path =
     (case read_file open_file read_to_string path of
        Inl e \<Rightarrow> Some \<lparr>network = \<lparr>bind = ''localhost'', port = 6680\<rparr>,
          peer = \<lparr>seeds = [], max_peer_count = 10, max_pending_messages = 32,
            max_pending_send_to_all = 128, heartbeat_interval = 1000\<rparr>\<rparr>
      | Inr contents \<Rightarrow> (case toml contents of
          Inl e \<Rightarrow> None
        | Inr None \<Rightarrow> None
        | Inr (Some f) \<Rightarrow>
            Some \<lparr>network = \<lparr>bind = or_default ''localhost'' (Option.bind (given_network f) given_bind),
                    port = or_default 6680 (Option.bind (given_network f) given_port)\<rparr>,
               peer = \<lparr>seeds = or_default [] (Option.bind (given_peer f) given_seeds),
                 max_peer_count = or_default 10 (Option.bind (given_peer f) given_max_peer_count),
                 max_pending_messages =
                   or_default 32 (Option.bind (given_peer f) given_max_pending_messages),
                 max_pending_send_to_all =
                   or_default 128 (Option.bind (given_peer f) given_max_pending_send_to_all),
                 heartbeat_interval =
                   or_default 1000 (Option.bind (given_peer f) given_heartbeat_interval)\<rparr>\<rparr>))"
  by (auto simp: load_config_from_file_def parse_config_from_string_def fill_config_def
      fill_network_def fill_peer_def default_defs split: sum.splits option.splits)

end
