(* ===== verification/Address.thy ===== *)
theory Address
  imports Config
begin

text \<open>
  How the standard library reads the bind address that the configuration gives:
  \<open>str::to_socket_addrs\<close>, which \<open>start_heartbeat\<close> and the listener call. The configured port is a
  \<open>usize\<close>, the port of a socket address 16 bits. Reading a numeric socket address
  (\<open>SocketAddr::from_str\<close>) and looking up a host name are parameters.
\<close>

section \<open>The standard library\<close>

text \<open>\<open>str::rsplit_once\<close>, \<open>u16::from_str\<close>: an optional plus sign, decimal digits, no overflow.\<close>

definition rsplit_once :: "char \<Rightarrow> string \<Rightarrow> (string \<times> string) option" where
  "rsplit_once c s = (if c \<in> set s then Some (split_last c s) else None)"

definition is_digit :: "char \<Rightarrow> bool" where
  "is_digit c \<longleftrightarrow> c \<in> set ''0123456789''"

definition parse_u16 :: "string \<Rightarrow> u16 option" where
  "parse_u16 s =
     (let ds = (if length s > 1 \<and> hd s = CHR ''+'' then tl s else s)
      in if ds \<noteq> [] \<and> list_all is_digit ds \<and> radix_val 10 ds < 2 ^ 16
         then Some (word_of_nat (radix_val 10 ds)) else None)"

definition to_socket_addrs ::
    "(string \<Rightarrow> SocketAddr option) \<Rightarrow> (string \<Rightarrow> u16 \<Rightarrow> SocketAddr list option) \<Rightarrow> string
     \<Rightarrow> SocketAddr list option" where
  "to_socket_addrs from_str lookup s =
     (case from_str s of
        Some addr \<Rightarrow> Some [addr]
      | None \<Rightarrow> Option.bind (rsplit_once CHR '':'' s) (\<lambda>(host, port_str).
                Option.bind (parse_u16 port_str) (\<lambda>port. lookup host port)))"

fun port_of :: "SocketAddr \<Rightarrow> u16" where
  "port_of (V4 a b c d p) = p"
| "port_of (V6 segs p flowinfo scope) = p"

text \<open>
  What is documented of the two parameters: a socket address ends in a colon and its port, and the
  addresses found for a host have the port that was asked for.
\<close>

definition std_names ::
    "(string \<Rightarrow> SocketAddr option) \<Rightarrow> (string \<Rightarrow> u16 \<Rightarrow> SocketAddr list option) \<Rightarrow> bool" where
  "std_names from_str lookup \<longleftrightarrow>
     (\<forall>s addr. from_str s = Some addr \<longrightarrow>
        (\<exists>host p. rsplit_once CHR '':'' s = Some (host, p) \<and> parse_u16 p = Some (port_of addr))) \<and>
     (\<forall>host port addrs. lookup host port = Some addrs \<longrightarrow> (\<forall>addr \<in> set addrs. port_of addr = port))"

section \<open>Printed numbers\<close>

lemma digit_char_is_digit: "d < 10 \<Longrightarrow> is_digit (digit_char d)"
proof -
  have "list_all (\<lambda>d. is_digit (digit_char d)) [0..<10]"
    by (simp add: is_digit_def digit_char_def upt_rec)
  then show "d < 10 \<Longrightarrow> is_digit (digit_char d)" by (simp add: list_all_iff)
qed

lemma radix_digits: "list_all is_digit (radix 10 n)"
proof (induction n rule: less_induct)
  case (less n)
  show ?case
  proof (cases "n < 10")
    case True
    then show ?thesis by (subst radix.simps) (simp add: digit_char_is_digit)
  next
    case False
    then have "list_all is_digit (radix 10 (n div 10))" by (intro less) simp
    with False show ?thesis by (subst radix.simps) (simp add: digit_char_is_digit)
  qed
qed

lemma plus_no_digit: "\<not> is_digit CHR ''+''"
  by (simp add: is_digit_def)

text \<open>A printed number reads back as 16 bits exactly when it has at most 16 bits.\<close>

lemma parse_u16_dec:
  fixes w :: "'a::len word"
  shows "parse_u16 (dec w) = (if unat w < 2 ^ 16 then Some (word_of_nat (unat w)) else None)"
proof -
  have "hd (dec w) \<noteq> CHR ''+''"
    using radix_digits [of "unat w"] plus_no_digit hd_in_set [OF radix_not_Nil, of 10 "unat w"]
    unfolding dec_def list_all_iff by metis
  moreover have "radix_val 10 (dec w) = unat w" by (simp add: dec_def radix_roundtrip)
  ultimately show ?thesis
    using radix_digits [of "unat w"] by (simp add: parse_u16_def Let_def) (simp add: dec_def)
qed

section \<open>The bind address\<close>

lemma rsplit_bind_address:
  "rsplit_once CHR '':'' (get_bind_address n) = Some (bind n, dec (port n))"
  by (simp add: rsplit_once_def)

text \<open>
  No port is ever cut to 16 bits: one that fits is the port of every address found, one that does
  not fit finds none.
\<close>

lemma bind_address_port:
  assumes "std_names from_str lookup"
    and "to_socket_addrs from_str lookup (get_bind_address n) = Some addrs" and "addr \<in> set addrs"
  shows "unat (port_of addr) = unat (port n)"
proof -
  have port: "p = dec (port n)" if "rsplit_once CHR '':'' (get_bind_address n) = Some (host, p)" for host p
    using that by (simp add: rsplit_bind_address)
  have "parse_u16 (dec (port n)) = Some (port_of addr)"
  proof (cases "from_str (get_bind_address n)")
    case None
    with assms(2) obtain q where q: "parse_u16 (dec (port n)) = Some q" "lookup (bind n) q = Some addrs"
      by (auto simp: to_socket_addrs_def rsplit_bind_address bind_eq_Some_conv)
    moreover from this(2) have "port_of addr = q" using assms(1,3) unfolding std_names_def by blast
    ultimately show ?thesis by simp
  next
    case (Some addr')
    with assms(2,3) have "addr' = addr" by (auto simp: to_socket_addrs_def)
    with Some assms(1) port show ?thesis unfolding std_names_def by blast
  qed
  then have "unat (port n) < 2 ^ 16" "port_of addr = word_of_nat (unat (port n))"
    by (auto simp: parse_u16_dec split: if_splits)
  moreover have "unat (word_of_nat k :: u16) = k" if "k < 2 ^ 16" for k
    using that by (simp add: unat_of_nat take_bit_nat_eq_self)
  ultimately show ?thesis by metis
qed

lemma large_port_unresolved:
  assumes "std_names from_str lookup" and "2 ^ 16 \<le> unat (port n)"
  shows "to_socket_addrs from_str lookup (get_bind_address n) = None"
proof -
  have none: "parse_u16 (dec (port n)) = None" using assms(2) by (simp add: parse_u16_dec)
  moreover have "from_str (get_bind_address n) = None"
  proof (cases "from_str (get_bind_address n)")
    case (Some addr)
    with assms(1) obtain host p where "rsplit_once CHR '':'' (get_bind_address n) = Some (host, p)"
      "parse_u16 p = Some (port_of addr)" unfolding std_names_def by blast
    with none show ?thesis by (simp add: rsplit_bind_address)
  qed
  ultimately show ?thesis by (simp add: to_socket_addrs_def rsplit_bind_address)
qed

text \<open>A concrete resolver: every host is the local one, nothing is a numeric address.\<close>

definition local_lookup :: "string \<Rightarrow> u16 \<Rightarrow> SocketAddr list option" where
  "local_lookup host p = Some [V4 127 0 0 1 p]"

lemma local_names: "std_names (\<lambda>s. None) local_lookup"
  by (simp add: std_names_def local_lookup_def)

end
