(* ===== verification/Startup.thy ===== *)
theory Startup
  imports Node Address
begin

text \<open>
  node/run/src: the command line (cli.rs) and \<open>main\<close> (main.rs), from the configuration file to the
  node of theory Node, and what \<open>main\<close> returns. What \<open>env_logger::init\<close> and
  \<open>set_global_default\<close> do is a pair of parameters; \<open>bc_new\<close> is \<open>broadcast::channel\<close> and \<open>iv_new\<close>
  is \<open>time::interval\<close>, which may panic.
\<close>

section \<open>The command line\<close>

record Cli =
  config_file :: string

text \<open>The \<open>default_value\<close> of the option \<open>--config-file\<close>.\<close>

definition parse_cli :: "string option \<Rightarrow> Cli" where
  "parse_cli given = \<lparr>config_file = or_default ''config.toml'' given\<rparr>"

text \<open>
  \<open>Cli::try_parse_from\<close>, which clap derives from the struct: what clap makes of the arguments is a
  parameter, the value given to the option if there is one.
\<close>

definition try_parse_from :: "(string list \<Rightarrow> 'e + string option) \<Rightarrow> string list \<Rightarrow> (Cli, 'e) outcome" where
  "try_parse_from clap args = and_then (map_err (\<lambda>e. e) (clap args)) (\<lambda>given. Ok (parse_cli given))"

section \<open>Logging and tracing\<close>

text \<open>\<open>env_logger::init()\<close> panics when there is a logger already; tracing reports an error.\<close>

definition setup_logging :: "(unit, string) outcome \<Rightarrow> (unit, string) outcome" where
  "setup_logging env_logger_init = and_then env_logger_init (\<lambda>_. Ok ())"

definition setup_tracing :: "string + unit \<Rightarrow> (unit, string) outcome" where
  "setup_tracing set_global_default = and_then (map_err (\<lambda>e. e) set_global_default) (\<lambda>_. Ok ())"

section \<open>Main\<close>

text \<open>
  \<open>main\<close> up to its first seed. The result is the node in its initial state and the environment
  with the two values main has fixed. The receiver that \<open>broadcast::channel\<close> returns besides the
  sender is dropped at once. \<open>load\<close> is \<open>load_config_from_file\<close> on its file system and parser.
\<close>

definition node_main ::
    "(string \<Rightarrow> Config option) \<Rightarrow> (unit, string) outcome \<Rightarrow> string + unit
     \<Rightarrow> (usize \<Rightarrow> ('b \<times> 'r, string) outcome) \<Rightarrow> (u64 \<Rightarrow> ('iv, string) outcome)
     \<Rightarrow> ('ch, 'e, 'b, 'r, 'iv) node_env \<Rightarrow> SystemTime \<Rightarrow> Cli
     \<Rightarrow> (('ch, 'e, 'b, 'r, 'iv) node_env \<times> ('ch, 'b, 'r, 'iv) node, string) outcome" where
  "node_main load logger_init set_global_default bc_new iv_new E now args =
     and_then (unwrap (load (config_file args))) (\<lambda>config.
     let bind_address = get_bind_address (network config) in
     and_then (setup_logging logger_init) (\<lambda>_.
     and_then (setup_tracing set_global_default) (\<lambda>_.
     let m = manager_new (max_peer_count (peer config)) in
     and_then (bc_new (max_pending_send_to_all (peer config))) (\<lambda>(send_to_all_tx, dropped).
     let send_to_all_tx = bc_unsubscribe E send_to_all_tx dropped in
     and_then (start_heartbeat iv_new (resolve E) (codec_ser (task_env E)) now bind_address
                 (heartbeat_interval (peer config))) (\<lambda>(message, iv).
     Ok (E\<lparr>pending := max_pending_messages (peer config), beat := message\<rparr>,
         node_init m send_to_all_tx iv (seeds (peer config))))))))"

lemmas node_main_Ok = node_main_def [unfolded Let_def setup_logging_def setup_tracing_def]

text \<open>A concrete main, on a configuration with a zero channel capacity.\<close>

definition zero_config :: Config where
  "zero_config = Config_default\<lparr>peer := PeerConfig_default\<lparr>max_pending_messages := 0\<rparr>\<rparr>"

definition zero_main where
  "zero_main = node_main (\<lambda>_. Some zero_config) (Ok ()) (Inr ()) log_create interval_new
     sample_node_env 0 (parse_cli None)"

lemmas sample_main_defs = log_create_def interval_new_def zero_config_def default_defs

definition zero_start :: "(queue, sent_log, nat, Interval) node" where
  "zero_start = node_init (manager_new 10) \<lparr>sent_values = [], window = 128, receiver_count = 0\<rparr> \<lparr>due_at = 0, every = 1000\<rparr> []"

lemma zero_main_starts:
  "zero_main = Ok (sample_node_env\<lparr>pending := 0\<rparr>, zero_start)"
  by (simp add: zero_main_def node_main_def setup_logging_def setup_tracing_def start_heartbeat_def heartbeat_message_def
      heartbeat_start_def as_bytes_def sample_main_defs sample_node_env_def sample_env_def
      zero_start_def log_defs Let_def)

text \<open>
  What \<open>main\<close> has returned after a run of the node: nothing while it dials or listens; \<open>Ok\<close> once
  \<open>start_listen\<close> has returned, after "Listen done"; a panic in the accept loop ends it too.
\<close>

definition main_result :: "('ch, 'b, 'r, 'iv) node \<Rightarrow> (unit, string) outcome option" where
  "main_result n =
     (case listener n of
        Returned \<Rightarrow> Some (Ok ())
      | MainPanicked \<Rightarrow> Some (Panic ''mpsc bounded channel requires buffer > 0'')
      | _ \<Rightarrow> None)"

fun bind_failed :: "'io node_event \<Rightarrow> bool" where
  "bind_failed (ListenBind bound) = (\<not> bound)"
| "bind_failed _ = False"

text \<open>Once main has returned, the run is over.\<close>

lemma step_main_running: "node_step E n ev n' \<Longrightarrow> main_running n"
  by (simp add: node_next_def split: if_splits)

lemma step_returns:
  assumes "node_step E n ev n'"
  shows "listener n' = Returned \<longleftrightarrow> bind_failed ev"
  using assms step_main_running [OF assms]
  by (cases rule: node_cases) (auto simp: main_running_def)

lemma run_returns:
  "node_run E s evs t \<Longrightarrow> listener s = NotStarted \<Longrightarrow>
   listener t = Returned \<longleftrightarrow> (\<exists>ev \<in> set evs. bind_failed ev)"
proof (induction rule: run.induct)
  case (more s evs t ev u)
  have "listener t \<noteq> Returned" using step_main_running [OF more.hyps(2)] by (simp add: main_running_def)
  with more step_returns [OF more.hyps(2)] show ?case by auto
qed simp

section \<open>Properties\<close>

text \<open>
  Main reaches its network loop exactly when the configuration loads, the logging set-up
  succeeds, the broadcast channel and the interval can be made with the configured values, and
  the bind address resolves to at least one address whose heartbeat serializes; then the node
  starts with exactly the configured limit, seeds and channel capacity.
\<close>

theorem main_starts_iff:
  "node_main load logger_init set_global_default bc_new iv_new E now args = Ok (E', n) \<longleftrightarrow>
     (\<exists>c b r iv a rest frame.
        load (config_file args) = Some c \<and> logger_init = Ok () \<and> set_global_default = Inr () \<and>
        bc_new (max_pending_send_to_all (peer c)) = Ok (b, r) \<and>
        iv_new (heartbeat_interval (peer c)) = Ok iv \<and>
        resolve E (get_bind_address (network c)) = Some (a # rest) \<and>
        codec_ser (task_env E) (Heartbeat \<lparr>from_addr = addr_to_string a, time = now\<rparr>) = Some frame \<and>
        E' = E\<lparr>pending := max_pending_messages (peer c), beat := frame\<rparr> \<and>
        n = node_init (manager_new (max_peer_count (peer c))) (bc_unsubscribe E b r) iv (seeds (peer c)))"
  by (auto simp: node_main_Ok start_heartbeat_def outcome_simps heartbeat_message_Ok)

text \<open>
  C36. The configured port must fit in 16 bits, although its type is \<open>usize\<close> and nothing checks it:
  with a larger one main panics before it listens, because the bind address resolves to nothing and
  \<open>start_heartbeat\<close> unwraps. A port is never cut to fit: when main starts the node, the heartbeat
  announces an address with exactly the configured port.
\<close>

theorem bind_port_must_fit:
  assumes std: "resolve E = to_socket_addrs from_str lookup" "std_names from_str lookup"
    and config: "load (config_file args) = Some c"
  shows "(2 ^ 16 \<le> unat (port (network c)) \<and> logger_init = Ok () \<and> set_global_default = Inr () \<and>
      is_ok (bc_new (max_pending_send_to_all (peer c))) \<longrightarrow>
      panics (node_main load logger_init set_global_default bc_new iv_new E now args)) \<and>
    (node_main load logger_init set_global_default bc_new iv_new E now args = Ok (E', n) \<longrightarrow>
      (\<exists>addr. codec_ser (task_env E) (Heartbeat \<lparr>from_addr = addr_to_string addr, time = now\<rparr>) = Some (beat E') \<and>
         unat (port_of addr) = unat (port (network c))))"
proof (intro conjI impI; (elim conjE)?)
  assume large: "2 ^ 16 \<le> unat (port (network c))" and logging: "logger_init = Ok ()" "set_global_default = Inr ()"
    and "is_ok (bc_new (max_pending_send_to_all (peer c)))"
  then obtain b r where bc: "bc_new (max_pending_send_to_all (peer c)) = Ok (b, r)"
    by (auto elim: is_ok.elims)
  have "resolve E (get_bind_address (network c)) = None"
    using large_port_unresolved [OF std(2) large] std(1) by simp
  then show "panics (node_main load logger_init set_global_default bc_new iv_new E now args)"
    by (simp add: node_main_Ok config logging bc start_heartbeat_def heartbeat_message_def)
next
  assume ok: "node_main load logger_init set_global_default bc_new iv_new E now args = Ok (E', n)"
  then obtain addr rest frame where
    addrs: "resolve E (get_bind_address (network c)) = Some (addr # rest)"
    and frame: "codec_ser (task_env E) (Heartbeat \<lparr>from_addr = addr_to_string addr, time = now\<rparr>) = Some frame"
      "beat E' = frame"
    using config by (auto simp: node_main_Ok start_heartbeat_def outcome_simps heartbeat_message_Ok)
  have "unat (port_of addr) = unat (port (network c))"
    using bind_address_port [OF std(2)] addrs std(1) by simp
  with frame show "\<exists>addr. codec_ser (task_env E) (Heartbeat \<lparr>from_addr = addr_to_string addr, time = now\<rparr>) = Some (beat E') \<and>
         unat (port_of addr) = unat (port (network c))"
    by blast
qed

definition large_port_config :: Config where
  "large_port_config = Config_default\<lparr>network := NetworkConfig_default\<lparr>port := 70000\<rparr>\<rparr>"

lemma bind_port_must_fit_witness:
  "panics (node_main (\<lambda>_. Some large_port_config) (Ok ()) (Inr ()) log_create interval_new
     (sample_node_env\<lparr>resolve := to_socket_addrs (\<lambda>s. None) local_lookup\<rparr>) 0 (parse_cli None))"
proof -
  have "resolve (sample_node_env\<lparr>resolve := to_socket_addrs (\<lambda>s. None) local_lookup\<rparr>) =
      to_socket_addrs (\<lambda>s. None) local_lookup"
    by simp
  from bind_port_must_fit [OF this local_names, where load = "\<lambda>_. Some large_port_config" and c = large_port_config,
      OF refl] show ?thesis
    by (simp add: large_port_config_def sample_main_defs)
qed

text \<open>
  C34. A zero in the peer section is fatal, at different times: a zero broadcast capacity or
  heartbeat interval makes main panic before it listens; a zero channel capacity lets the node
  start and makes main panic when the first peer is accepted, which ends the process.
\<close>

theorem zero_settings_are_fatal:
  assumes tokio: "panics (bc_new 0)" "panics (iv_new 0)" "channel_ops (task_env E) buffered is_closed limit"
    and config: "load (config_file args) = Some c"
  shows "(max_pending_send_to_all (peer c) = 0 \<or> heartbeat_interval (peer c) = 0 \<longrightarrow>
      \<not> is_ok (node_main load logger_init set_global_default bc_new iv_new E now args)) \<and>
    (max_pending_messages (peer c) = 0 \<and> node_main load logger_init set_global_default bc_new iv_new E now args = Ok (E', n0) \<and>
      node_step E' n (Accept (Some a)) n' \<longrightarrow> listener n' = MainPanicked)"
proof (intro conjI impI)
  assume zero: "max_pending_send_to_all (peer c) = 0 \<or> heartbeat_interval (peer c) = 0"
  have "node_main load logger_init set_global_default bc_new iv_new E now args \<noteq> Ok (E', n0)" for E' n0
    using zero tokio config by (auto simp: node_main_Ok start_heartbeat_def outcome_simps)
  then show "\<not> is_ok (node_main load logger_init set_global_default bc_new iv_new E now args)"
    by (cases "node_main load logger_init set_global_default bc_new iv_new E now args") auto
next
  assume zero: "max_pending_messages (peer c) = 0 \<and>
      node_main load logger_init set_global_default bc_new iv_new E now args = Ok (E', n0) \<and>
      node_step E' n (Accept (Some a)) n'"
  then have env: "pending E' = 0" "task_env E' = task_env E"
    using config by (auto simp: node_main_Ok start_heartbeat_def outcome_simps)
  have "panics (ch_new (task_env E) 0)"
    using mpsc.create_zero [OF tokio(3) [unfolded channel_ops_def]] .
  with env zero show "listener n' = MainPanicked"
    by (auto elim: node_cases)
qed

lemma zero_settings_are_fatal_witness:
  "\<exists>n n'. node_run (sample_node_env\<lparr>pending := 0\<rparr>) zero_start [ListenBind True, NotifyOne :: unit node_event] n \<and>
     node_step (sample_node_env\<lparr>pending := 0\<rparr>) n (Accept (Some (V4 10 0 0 1 5000)) :: unit node_event) n' \<and>
     listener n' = MainPanicked"
proof -
  let ?E = "sample_node_env\<lparr>pending := 0\<rparr>" and ?ev = "Accept (Some (V4 10 0 0 1 5000)) :: unit node_event"
  obtain n n' where steps: "node_run ?E zero_start [ListenBind True, NotifyOne :: unit node_event] n" "node_step ?E n ?ev n'"
    unfolding node.run_iff by (simp add: sample_node_defs zero_start_def)
  have ops: "channel_ops (task_env sample_node_env) items shut size_limit"
    using sample_ops by (simp add: sample_node_env_def)
  from zero_settings_are_fatal [of log_create interval_new, OF _ _ ops,
      where load = "\<lambda>_. Some zero_config" and args = "parse_cli None" and c = zero_config]
    zero_main_starts [unfolded zero_main_def] steps(2)
  have "listener n' = MainPanicked" by (fastforce simp: sample_main_defs)
  with steps show ?thesis by blast
qed

text \<open>
  C35. Once the node runs, main never returns an error: it returns \<open>Ok\<close> exactly when binding the
  listen address failed, so a node that could not listen ends with a successful exit status; as
  long as binding succeeds and the channel capacity is valid it does not return at all.
\<close>

theorem main_returns_iff_bind_fails:
  assumes run: "node_run E (node_init m b iv peers) evs n"
  shows "(main_result n = Some (Ok ()) \<longleftrightarrow> (\<exists>ev \<in> set evs. bind_failed ev)) \<and>
    (\<forall>e. main_result n \<noteq> Some (Err e)) \<and>
    (is_ok (ch_new (task_env E) (pending E)) \<and> (\<forall>ev \<in> set evs. \<not> bind_failed ev) \<longrightarrow> main_result n = None)"
proof -
  have returned: "listener n = Returned \<longleftrightarrow> (\<exists>ev \<in> set evs. bind_failed ev)"
    by (rule run_returns [OF run]) (simp add: node_init_def)
  have panicked: "listener n \<noteq> MainPanicked" if "is_ok (ch_new (task_env E) (pending E))"
  proof -
    have "preserved (node_step E) (\<lambda>n. listener n \<noteq> MainPanicked)"
    proof
      fix n n' ev
      assume "node_step E n ev n'" and "listener n \<noteq> MainPanicked"
      then show "listener n' \<noteq> MainPanicked"
        by (cases rule: node_cases) (use \<open>is_ok (ch_new (task_env E) (pending E))\<close> in auto)
    qed
    from preserved.run_keeps [OF this run] show ?thesis by (simp add: node_init_def)
  qed
  show ?thesis
    using returned panicked by (cases "listener n") (auto simp: main_result_def)
qed

lemma main_returns_iff_bind_fails_witness:
  "\<exists>n. node_run sample_node_env (sample_node 1 []) [ListenBind False :: unit node_event] n \<and>
     main_result n = Some (Ok ()) \<and> links n = []"
proof -
  obtain n where run: "node_run sample_node_env (sample_node 1 []) [ListenBind False :: unit node_event] n"
    and "links n = []"
    unfolding node.run_iff by (simp add: sample_node_defs)
  with main_returns_iff_bind_fails [OF run [unfolded sample_node_def]] show ?thesis by auto
qed

end
