(* ===== verification/Scenarios.thy ===== *)
theory Scenarios
  imports Startup Payout
begin

text \<open>
  The unit tests of the repository as predicates on the model: each definition is one test
  function, with its assertions as a conjunction, over the libraries it uses as parameters. They
  tie the model to what the authors state of their code; the test that its own code does not
  meet is proved false.
\<close>

section \<open>connection_manager.rs\<close>

definition it_should_create_connections_map :: bool where
  "it_should_create_connections_map \<longleftrightarrow> length (shared_state (manager_new 10)) = 0"

definition it_should_insert_new_address :: "SystemTime \<Rightarrow> bool" where
  "it_should_insert_new_address now \<longleftrightarrow>
     (let manager = manager_new 10; s = \<lparr>created_at = now\<rparr>;
          here = V4 127 0 0 1 8080; other = V4 127 0 0 1 8081;
          (inserted, manager') = manager_insert manager here s;
          (removed, manager'') = manager_remove manager' here
      in inserted = Ok None \<and> num_connections manager' = 1 \<and>
         manager_get manager' here \<noteq> None \<and> manager_get manager' other = None \<and>
         removed \<noteq> None \<and> num_connections manager'' = 0)"

definition it_should_not_insert_new_address_when_limit_reached :: "SystemTime \<Rightarrow> bool" where
  "it_should_not_insert_new_address_when_limit_reached now \<longleftrightarrow>
     (let manager = manager_new 1; s = \<lparr>created_at = now\<rparr>;
          here = V4 127 0 0 1 8080; other = V4 127 0 0 1 8081;
          (inserted, manager') = manager_insert manager here s;
          (refused, manager'') = manager_insert manager' other s
      in inserted = Ok None \<and> num_connections manager' = 1 \<and>
         is_err refused \<and> num_connections manager'' = 1)"

section \<open>protocol\<close>

definition local_addr :: SocketAddr where
  "local_addr = V4 127 0 0 1 6680"

definition it_matches_start_message_for_handshake :: bool where
  "it_matches_start_message_for_handshake \<longleftrightarrow>
     (unwrap (handshake_start local_addr) :: (Message, unit) outcome) =
       Ok (Handshake \<lparr>message = ''helo'', version = ''0.1.0''\<rparr>)"

definition it_matches_response_message_for_correct_handshake_start :: bool where
  "it_matches_response_message_for_correct_handshake_start \<longleftrightarrow>
     and_then (unwrap (handshake_start local_addr)) response_for_received =
       Ok (Some (Handshake \<lparr>message = ''oleh'', version = ''0.1.0''\<rparr>))"

definition it_matches_error_response_message_for_incorrect_handshake_start :: bool where
  "it_matches_error_response_message_for_incorrect_handshake_start \<longleftrightarrow>
     response_for_received (Handshake \<lparr>message = ''bad-message'', version = ''0.1.0''\<rparr>) =
       Err ''Bad message''"

definition it_matches_error_response_message_for_incorrect_handshake_version :: bool where
  "it_matches_error_response_message_for_incorrect_handshake_version \<longleftrightarrow>
     response_for_received (Handshake \<lparr>message = ''helo'', version = ''0.2.0''\<rparr>) = Err ''Bad message''"

definition heartbeat_it_matches_start_message :: "SystemTime \<Rightarrow> bool" where
  "heartbeat_it_matches_start_message now \<longleftrightarrow>
     (case heartbeat_start now local_addr of
        Some (Heartbeat start_message) \<Rightarrow> from_addr start_message = ''127.0.0.1:6680''
      | _ \<Rightarrow> True)"

definition heartbeat_it_matches_response_message :: "SystemTime \<Rightarrow> bool" where
  "heartbeat_it_matches_response_message now \<longleftrightarrow>
     and_then (unwrap (heartbeat_start now local_addr)) response_for_received = Ok None"

definition it_serialized_ping_message :: "(Message \<Rightarrow> bytes option) \<Rightarrow> (bytes \<Rightarrow> string + Message) \<Rightarrow> bool" where
  "it_serialized_ping_message ser de \<longleftrightarrow>
     (let ping_message = Ping \<lparr>ping_message = ''ping''\<rparr>
      in and_then (unwrap (ser ping_message)) (from_bytes de) = Ok ping_message)"

definition it_matches_start_message_for_ping :: bool where
  "it_matches_start_message_for_ping \<longleftrightarrow>
     (unwrap (ping_start local_addr) :: (Message, unit) outcome) = Ok (Ping \<lparr>ping_message = ''ping''\<rparr>)"

definition it_invoked_received_message_after_deseralization ::
    "(Message \<Rightarrow> bytes option) \<Rightarrow> (bytes \<Rightarrow> string + Message) \<Rightarrow> bool" where
  "it_invoked_received_message_after_deseralization ser de \<longleftrightarrow>
     and_then (as_bytes ser (Ping \<lparr>ping_message = ''ping''\<rparr>)) (\<lambda>b.
     and_then (unwrap b) (\<lambda>b.
     and_then (from_bytes de b) response_for_received)) =
       Ok (Some (Ping \<lparr>ping_message = ''pong''\<rparr>))"

section \<open>connection/src/lib.rs\<close>

definition it_should_read_message_from_stream_and_send_to_channel_sender :: "bytes \<Rightarrow> bool" where
  "it_should_read_message_from_stream_and_send_to_channel_sender msg_bytes \<longleftrightarrow>
     (let (result, ch) = start_read_loop queue_try_send [Inr msg_bytes :: unit + bytes] (queue_new 3)
      in fst (queue_recv ch) = Ready (Some msg_bytes))"

definition it_should_read_message_from_stream_and_handle_error_when_sending_to_channel_fails ::
    "bytes \<Rightarrow> bool" where
  "it_should_read_message_from_stream_and_handle_error_when_sending_to_channel_fails msg_bytes \<longleftrightarrow>
     is_err (fst (start_read_loop queue_try_send [Inr msg_bytes :: unit + bytes] (queue_close (queue_new 3))))"

definition it_should_stop_loop_if_message_is_an_error :: bool where
  "it_should_stop_loop_if_message_is_an_error \<longleftrightarrow>
     is_err (fst (start_read_loop queue_try_send [Inl ''oh no!'' :: string + bytes] (queue_close (queue_new 3))))"

definition it_should_stop_loop_when_stream_returns_none :: bool where
  "it_should_stop_loop_when_stream_returns_none \<longleftrightarrow>
     is_err (fst (start_read_loop queue_try_send ([] :: (unit + bytes) list) (queue_close (queue_new 3))))"

text \<open>The bytes of \<open>hello world\<close>; the test expects the error of \<open>handle_received\<close>.\<close>

definition it_should_handle_message_received_on_channel ::
    "(Message \<Rightarrow> bytes option) \<Rightarrow> (bytes \<Rightarrow> string + Message) \<Rightarrow> bool" where
  "it_should_handle_message_received_on_channel ser de \<longleftrightarrow>
     (case and_then (unwrap (handshake_start (V4 127 0 0 1 8080))) (\<lambda>m. and_then (as_bytes ser m) unwrap) of
        Ok message_bytes \<Rightarrow>
          fst (start_message_handler ser de (record_send True)
            [FromChannel message_bytes,
             FromChannel [104, 101, 108, 108, 111, 32, 119, 111, 114, 108, 100]] []) =
          Return (Err ''Error parsing message'')
      | Err (e :: unit) \<Rightarrow> False
      | Panic p \<Rightarrow> False)"

section \<open>config, run\<close>

text \<open>The assertions that most tests of config share.\<close>

definition all_defaults :: "Config \<Rightarrow> bool" where
  "all_defaults conf \<longleftrightarrow>
     bind (network conf) = ''localhost'' \<and> port (network conf) = 6680 \<and>
     length (seeds (peer conf)) = 0 \<and> max_peer_count (peer conf) = 10 \<and>
     max_pending_messages (peer conf) = 32 \<and> max_pending_send_to_all (peer conf) = 128 \<and>
     heartbeat_interval (peer conf) = 1000"

definition it_should_load_default_config_correctly :: bool where
  "it_should_load_default_config_correctly \<longleftrightarrow> all_defaults Config_default"

definition it_should_load_default_config_when_file_not_found ::
    "(string \<Rightarrow> unit + ConfigFields option) \<Rightarrow> bool" where
  "it_should_load_default_config_when_file_not_found toml \<longleftrightarrow>
     (case load_config_from_file (\<lambda>path. Inl () :: unit + unit) (\<lambda>f. Inl ()) toml ''no_such_file.toml'' of
        Some conf \<Rightarrow> all_defaults conf
      | None \<Rightarrow> False)"

definition it_should_return_error_for_bad_toml :: "(string \<Rightarrow> unit + ConfigFields option) \<Rightarrow> bool" where
  "it_should_return_error_for_bad_toml toml \<longleftrightarrow> parse_config_from_string toml ''abcd'' = None"

definition it_should_load_empty_config_for_empty_string ::
    "(string \<Rightarrow> unit + ConfigFields option) \<Rightarrow> bool" where
  "it_should_load_empty_config_for_empty_string toml \<longleftrightarrow>
     (case parse_config_from_string toml '''' of Some conf \<Rightarrow> all_defaults conf | None \<Rightarrow> False)"

text \<open>The test runs in node/config, where there is no \<open>config.toml\<close>: opening it fails.\<close>

definition it_should_get_bind_address_from_config :: "(string \<Rightarrow> unit + ConfigFields option) \<Rightarrow> bool" where
  "it_should_get_bind_address_from_config toml \<longleftrightarrow>
     (case load_config_from_file (\<lambda>path. Inl () :: unit + unit) (\<lambda>f. Inl ()) toml ''config.toml'' of
        Some conf \<Rightarrow> get_bind_address (network conf) = ''localhost:6680''
      | None \<Rightarrow> False)"

definition it_should_build_struct_for_parsing_cli_options :: "(string list \<Rightarrow> unit + string option) \<Rightarrow> bool" where
  "it_should_build_struct_for_parsing_cli_options clap \<longleftrightarrow>
     (case try_parse_from clap [''node'', ''--config-file=conf.toml''] of
        Ok args \<Rightarrow> config_file args = ''conf.toml'' | _ \<Rightarrow> False)"

definition it_should_get_default_values_for_args :: "(string list \<Rightarrow> unit + string option) \<Rightarrow> bool" where
  "it_should_get_default_values_for_args clap \<longleftrightarrow>
     (case try_parse_from clap [''node''] of Ok args \<Rightarrow> config_file args = ''config.toml'' | _ \<Rightarrow> False)"

section \<open>uhpo\<close>

text \<open>
  \<open>one_input\<close> is the transaction the signature tests prepare, \<open>empty_prevout\<close> their previous
  output; the mocks replace operations of the record \<open>crypto\<close>.
\<close>

definition one_input :: "'txid \<Rightarrow> 'txid Transaction" where
  "one_input t = create_dummy_transaction\<lparr>tx_input := [spends t]\<rparr>"

definition empty_prevout :: TxOut where
  "empty_prevout = \<lparr>txout_value = 0, script_pubkey = []\<rparr>"

definition test_add_signature_with_invalid_tweak_error_key_creation_should_fail ::
    "('txid, 'sk, 'k, 'kp, 'pk, 'tw, 'rng, 'sig, 'te, 'se) crypto \<Rightarrow> 'se \<Rightarrow> 'txid \<Rightarrow> 'sk \<Rightarrow> 'tw \<Rightarrow> 'rng \<Rightarrow> bool" where
  "test_add_signature_with_invalid_tweak_error_key_creation_should_fail C invalid_tweak t sk tweak rng \<longleftrightarrow>
     (case fst (add_signature (C\<lparr>add_xonly_tweak := \<lambda>_ _. Inl invalid_tweak\<rparr>) (one_input t) 0
                  [empty_prevout] sk (Some tweak) rng) of
        Err (KeypairCreationError _) \<Rightarrow> True
      | _ \<Rightarrow> False)"

definition test_add_signature_with_a_bad_signature_should_fail_during_verification ::
    "('txid, 'sk, 'k, 'kp, 'pk, 'tw, 'rng, 'sig, 'te, 'se) crypto \<Rightarrow> 'se \<Rightarrow> 'kp \<Rightarrow> 'sig \<Rightarrow> 'txid \<Rightarrow> 'sk \<Rightarrow> 'tw \<Rightarrow> 'rng \<Rightarrow> bool" where
  "test_add_signature_with_a_bad_signature_should_fail_during_verification C invalid_signature kp zeros t sk tweak rng \<longleftrightarrow>
     (case fst (add_signature (C\<lparr>add_xonly_tweak := \<lambda>_ _. Inr kp,
                  sign_schnorr_with_rng := \<lambda>_ _ _. zeros,
                  verify_schnorr := \<lambda>_ _ _. Inl invalid_signature\<rparr>) (one_input t) 0
                  [empty_prevout] sk (Some tweak) rng) of
        Err (SignatureVerificationError _) \<Rightarrow> True
      | _ \<Rightarrow> False)"

definition test_add_signature_with_a_valid_signature_should_pass ::
    "('txid, 'sk, 'k, 'kp, 'pk, 'tw, 'rng, 'sig, 'te, 'se) crypto \<Rightarrow> 'txid \<Rightarrow> 'sk \<Rightarrow> 'tw \<Rightarrow> 'rng \<Rightarrow> bool" where
  "test_add_signature_with_a_valid_signature_should_pass C t sk tweak rng \<longleftrightarrow>
     is_ok (fst (add_signature C (one_input t) 0 [empty_prevout] sk (Some tweak) rng))"

definition test_new_payout_update_only_cb :: "('txid, 'addr) bitcoin \<Rightarrow> 'addr \<Rightarrow> bool" where
  "test_new_payout_update_only_cb B addr \<longleftrightarrow>
     (case payout_new B None create_dummy_transaction addr 1000 of
        Ok pu \<Rightarrow>
          length (tx_input (transaction pu)) = 1 \<and> length (tx_output (transaction pu)) = 1 \<and>
          Some (txout_value (tx_output (transaction pu) ! 0)) = amount_sub B 50000000 1000 \<and>
          prev_update_txout pu = None
      | _ \<Rightarrow> False)"

definition test_new_payout_update :: "('txid, 'addr) bitcoin \<Rightarrow> 'addr \<Rightarrow> bool" where
  "test_new_payout_update B addr \<longleftrightarrow>
     (case payout_new B (Some create_dummy_transaction) create_dummy_transaction addr 1000 of
        Ok pu \<Rightarrow>
          length (tx_input (transaction pu)) = 2 \<and> length (tx_output (transaction pu)) = 1 \<and>
          Some (txout_value (tx_output (transaction pu) ! 0)) = amount_sub B (50000000 * 2) 1000 \<and>
          prev_update_txout pu \<noteq> None
      | _ \<Rightarrow> False)"

text \<open>The two tests that sign both inputs, without tweaks and with a tweak for each.\<close>

definition sign_both_inputs ::
    "('txid, 'addr) bitcoin \<Rightarrow> ('txid, 'sk, 'k, 'kp, 'pk, 'tw, 'rng, 'sig, 'te, 'se) crypto \<Rightarrow> 'addr \<Rightarrow> 'sk
     \<Rightarrow> 'tw option \<Rightarrow> 'tw option \<Rightarrow> 'rng \<Rightarrow> bool" where
  "sign_both_inputs B C addr sk tweak tweak' rng \<longleftrightarrow>
     (case payout_new B (Some create_dummy_transaction) create_dummy_transaction addr 1000 of
        Ok pu \<Rightarrow>
          (let (r, pu1) = add_coinbase_sig C pu sk tweak rng;
               (r', pu2) = add_prev_update_sig C pu1 sk tweak' rng
           in is_ok r \<and> is_ok r' \<and>
              length (witness (tx_input (transaction pu2) ! 0)) = 1 \<and>
              length (witness (tx_input (transaction pu2) ! 1)) = 1)
      | _ \<Rightarrow> False)"

definition test_add_signature_with_no_tweak where
  "test_add_signature_with_no_tweak B C addr sk rng \<longleftrightarrow> sign_both_inputs B C addr sk None None rng"

definition test_add_signature_with_tweak where
  "test_add_signature_with_tweak B C addr sk tweak tweak' rng \<longleftrightarrow>
     sign_both_inputs B C addr sk (Some tweak) (Some tweak') rng"

definition test_add_signature_mock_error_should_fail ::
    "('txid, 'addr) bitcoin \<Rightarrow> ('txid, 'sk, 'k, 'kp, 'pk, 'tw, 'rng, 'sig, 'te, 'se) crypto \<Rightarrow> 'addr \<Rightarrow> 'se \<Rightarrow> 'sk
     \<Rightarrow> 'tw \<Rightarrow> 'tw \<Rightarrow> 'rng \<Rightarrow> bool" where
  "test_add_signature_mock_error_should_fail B C addr invalid_tweak sk tweak tweak' rng \<longleftrightarrow>
     (let C' = C\<lparr>add_xonly_tweak := \<lambda>_ _. Inl invalid_tweak\<rparr>
      in case payout_new B (Some create_dummy_transaction) create_dummy_transaction addr 1000 of
        Ok pu \<Rightarrow>
          (let (r, pu1) = add_coinbase_sig C' pu sk (Some tweak) rng;
               (r', pu2) = add_prev_update_sig C' pu1 sk (Some tweak') rng
           in (case r of Err (KeypairCreationError _) \<Rightarrow> True | _ \<Rightarrow> False) \<and>
              (case r' of Err (KeypairCreationError _) \<Rightarrow> True | _ \<Rightarrow> False))
      | _ \<Rightarrow> False)"

section \<open>The tests on the model\<close>

lemma manager_tests:
  "it_should_create_connections_map"
  "it_should_insert_new_address now"
  "it_should_not_insert_new_address_when_limit_reached now"
  by (simp_all add: it_should_create_connections_map_def it_should_insert_new_address_def
      it_should_not_insert_new_address_when_limit_reached_def manager_defs map_len_def Let_def)

lemma local_addr_printed: "addr_to_string local_addr = ''127.0.0.1:6680''"
  by (simp add: local_addr_def ipv4_to_string_def dec_def radix.simps digit_char_def)

lemma protocol_tests:
  "it_matches_start_message_for_handshake"
  "it_matches_response_message_for_correct_handshake_start"
  "it_matches_error_response_message_for_incorrect_handshake_start"
  "it_matches_error_response_message_for_incorrect_handshake_version"
  "heartbeat_it_matches_start_message now"
  "heartbeat_it_matches_response_message now"
  "it_matches_start_message_for_ping"
  by (simp_all add: it_matches_start_message_for_handshake_def
      it_matches_response_message_for_correct_handshake_start_def
      it_matches_error_response_message_for_incorrect_handshake_start_def
      it_matches_error_response_message_for_incorrect_handshake_version_def
      heartbeat_it_matches_start_message_def heartbeat_it_matches_response_message_def
      it_matches_start_message_for_ping_def start_defs response_defs local_addr_printed)

lemma codec_tests:
  assumes "ser (Ping \<lparr>ping_message = ''ping''\<rparr>) = Some b" and "de b = Inr (Ping \<lparr>ping_message = ''ping''\<rparr>)"
  shows "it_serialized_ping_message ser de" "it_invoked_received_message_after_deseralization ser de"
  using assms by (simp_all add: it_serialized_ping_message_def from_bytes_def as_bytes_def
      it_invoked_received_message_after_deseralization_def ping_response_for_received_def)

lemma loop_tests:
  "it_should_read_message_from_stream_and_send_to_channel_sender msg_bytes"
  "it_should_read_message_from_stream_and_handle_error_when_sending_to_channel_fails msg_bytes"
  "it_should_stop_loop_if_message_is_an_error"
  "it_should_stop_loop_when_stream_returns_none"
  by (simp_all add: it_should_read_message_from_stream_and_send_to_channel_sender_def
      it_should_read_message_from_stream_and_handle_error_when_sending_to_channel_fails_def
      it_should_stop_loop_if_message_is_an_error_def it_should_stop_loop_when_stream_returns_none_def
      start_read_loop_message queue_defs)

text \<open>The test of the message handler fails: the handler never returns that error.\<close>

lemma handler_error_texts:
  "fst (start_message_handler ser de send sels w) \<noteq> Return (Err ''Error parsing message'')"
proof (induction sels arbitrary: w)
  case (Cons sel sels)
  show ?case
  proof (cases sel)
    case (FromChannel msg)
    then show ?thesis using Cons.IH
      by (auto simp: handler_iteration_channel split: prod.split outcome.split)
  next
    case (FromBroadcast b)
    then show ?thesis using Cons.IH
      by (auto simp: handler_iteration_broadcast split: prod.split bool.split)
  next
    case AllDisabled
    then show ?thesis by (simp add: handler_iteration_def)
  qed
qed simp

lemma handler_test_fails: "\<not> it_should_handle_message_received_on_channel ser de"
  by (simp add: it_should_handle_message_received_on_channel_def handler_error_texts
      split: outcome.split del: start_message_handler.simps)

lemma config_tests:
  "it_should_load_default_config_correctly"
  "it_should_load_default_config_when_file_not_found toml"
  "toml ''abcd'' = Inl () \<Longrightarrow> it_should_return_error_for_bad_toml toml"
  "toml [] = Inr (Some \<lparr>given_network = None, given_peer = None\<rparr>) \<Longrightarrow>
   it_should_load_empty_config_for_empty_string toml"
  "it_should_get_bind_address_from_config toml"
  "clap [''node''] = Inr None \<Longrightarrow> it_should_get_default_values_for_args clap"
  "clap [''node'', ''--config-file=conf.toml''] = Inr (Some ''conf.toml'') \<Longrightarrow>
   it_should_build_struct_for_parsing_cli_options clap"
  by (simp_all add: it_should_load_default_config_correctly_def all_defaults_def default_defs
      it_should_load_default_config_when_file_not_found_def load_config_from_file_def read_file_def
      it_should_return_error_for_bad_toml_def it_should_load_empty_config_for_empty_string_def
      parse_config_from_string_def fill_config_def it_should_get_bind_address_from_config_def
      get_bind_address_def dec_def radix.simps digit_char_def it_should_get_default_values_for_args_def
      it_should_build_struct_for_parsing_cli_options_def try_parse_from_def parse_cli_def)

text \<open>
  The tests of uhpo, for libraries that work (theory Signature). Those that tweak a key with a random
  tweak pass when the library accepts that tweak.
\<close>

lemma signature_tests:
  assumes "crypto_works C" and "signing_keypair C sk (Some tweak) = Ok kp'"
  shows "test_add_signature_with_invalid_tweak_error_key_creation_should_fail C invalid_tweak t sk tweak rng"
    "test_add_signature_with_a_bad_signature_should_fail_during_verification C invalid_sig kp zeros t sk tweak rng"
    "test_add_signature_with_a_valid_signature_should_pass C t sk tweak rng"
proof -
  show "test_add_signature_with_invalid_tweak_error_key_creation_should_fail C invalid_tweak t sk tweak rng"
    by (simp add: test_add_signature_with_invalid_tweak_error_key_creation_should_fail_def
        add_signature_def signature_bytes_def signing_keypair_def)
  obtain msg where "key_spend_sighash C (one_input t) 0 [empty_prevout] = Inr msg"
    using works_sighash [OF assms(1), of 0 "one_input t" "[empty_prevout]"] by (auto simp: one_input_def)
  then show "test_add_signature_with_a_bad_signature_should_fail_during_verification C invalid_sig kp zeros t sk tweak rng"
    by (simp add: test_add_signature_with_a_bad_signature_should_fail_during_verification_def
        add_signature_def signature_bytes_def signing_keypair_def Let_def)
  show "test_add_signature_with_a_valid_signature_should_pass C t sk tweak rng"
    using works_signs [OF assms(1) _ _ assms(2), of 0 "one_input t" "[empty_prevout]" rng]
    by (auto simp: test_add_signature_with_a_valid_signature_should_pass_def one_input_def)
qed

text \<open>The payout update of the tests, for exact amounts.\<close>

lemma test_payout:
  fixes prev :: "'txid Transaction option"
  assumes "amount_ops (amount_add B) (amount_sub B)" and "prev = None \<or> prev = Some create_dummy_transaction"
  obtains pu :: "'txid PayoutUpdate" where
    "payout_new B prev create_dummy_transaction addr 1000 = Ok pu"
    "length (tx_input (transaction pu)) = (if prev = None then 1 else 2)"
    "map witness (tx_input (transaction pu)) = (if prev = None then [[]] else [[], []])"
    "\<exists>amount script. tx_output (transaction pu) = [\<lparr>txout_value = amount, script_pubkey = script\<rparr>] \<and>
       unat amount + 1000 = (if prev = None then 50000000 else 100000000)"
    "(prev_update_txout pu = None) = (prev = None)"
    "length (prevouts pu) = (if prev = None then 1 else 2)"
proof -
  have total_in: "inputs_value prev create_dummy_transaction = (if prev = None then 50000000 else 100000000)"
    using assms(2) by (auto simp: inputs_value_def create_dummy_transaction_def)
  obtain pu where new: "payout_new B prev create_dummy_transaction addr 1000 = Ok pu"
    using payout_new_succeeds [OF assms(1), of create_dummy_transaction prev 1000 addr] total_in assms(2)
    by (auto simp: create_dummy_transaction_def)
  show ?thesis
    using payout_new_Ok [OF assms(1) new] assms(2)
    by (intro that [OF new]) (auto simp: total_in spends_def prevouts_def)
qed

lemma payout_tests:
  assumes "amount_ops (amount_add B) (amount_sub B)"
  shows "test_new_payout_update_only_cb B addr" "test_new_payout_update B addr"
proof -
  obtain pu :: "'a PayoutUpdate" where
    first: "payout_new B None create_dummy_transaction addr 1000 = Ok pu"
      "length (tx_input (transaction pu)) = 1" "prev_update_txout pu = None" and
    out: "\<exists>amount script. tx_output (transaction pu) = [\<lparr>txout_value = amount, script_pubkey = script\<rparr>] \<and>
       unat amount + 1000 = 50000000"
    using test_payout [OF assms, of None addr] by (metis (mono_tags, lifting))
  from out obtain amount script where "tx_output (transaction pu) = [\<lparr>txout_value = amount, script_pubkey = script\<rparr>]"
    and "unat amount + 1000 = 50000000" by blast
  moreover from this have "amount_sub B 50000000 1000 = Some amount"
    by (simp add: amount_ops.sub_exact [OF assms])
  ultimately show "test_new_payout_update_only_cb B addr"
    using first by (simp add: test_new_payout_update_only_cb_def)
next
  obtain pu :: "'a PayoutUpdate" where
    second: "payout_new B (Some create_dummy_transaction) create_dummy_transaction addr 1000 = Ok pu"
      "length (tx_input (transaction pu)) = 2" "prev_update_txout pu \<noteq> None" and
    out: "\<exists>amount script. tx_output (transaction pu) = [\<lparr>txout_value = amount, script_pubkey = script\<rparr>] \<and>
       unat amount + 1000 = 100000000"
    using test_payout [OF assms, of "Some create_dummy_transaction" addr] by (metis (mono_tags, lifting) option.distinct(1))
  then obtain amount script where "tx_output (transaction pu) = [\<lparr>txout_value = amount, script_pubkey = script\<rparr>]"
    and "unat amount + 1000 = 100000000" by blast
  moreover from this have "amount_sub B (50000000 * 2) 1000 = Some amount"
    by (simp add: amount_ops.sub_exact [OF assms])
  ultimately show "test_new_payout_update B addr"
    using second by (auto simp: test_new_payout_update_def)
qed

lemma sign_both:
  assumes amounts: "amount_ops (amount_add B) (amount_sub B)" and works: "crypto_works C"
    and keys: "signing_keypair C sk tweak = Ok kp" "signing_keypair C sk tweak' = Ok kp'"
  shows "sign_both_inputs B C addr sk tweak tweak' rng"
proof -
  obtain pu :: "'a PayoutUpdate" where
    pu: "payout_new B (Some create_dummy_transaction) create_dummy_transaction addr 1000 = Ok pu"
      "length (tx_input (transaction pu)) = 2" "prev_update_txout pu \<noteq> None" "length (prevouts pu) = 2"
      "map witness (tx_input (transaction pu)) = [[], []]"
    using test_payout [OF amounts, of "Some create_dummy_transaction" addr] by (metis option.distinct(1))
  then obtain i0 i1 where ins: "tx_input (transaction pu) = [i0, i1]" "witness i0 = []" "witness i1 = []"
    by (auto simp: map_eq_Cons_conv)
  from works_signs [OF works _ _ keys(1), of 0 "transaction pu" "prevouts pu" rng] pu ins obtain v where
    first: "add_coinbase_sig C pu sk tweak rng =
      (Ok (), pu\<lparr>transaction := (transaction pu)\<lparr>tx_input := [i0\<lparr>witness := [v]\<rparr>, i1]\<rparr>\<rparr>)"
    by (auto simp: add_coinbase_sig_def)
  let ?pu = "pu\<lparr>transaction := (transaction pu)\<lparr>tx_input := [i0\<lparr>witness := [v]\<rparr>, i1]\<rparr>\<rparr>"
  obtain txout where prev: "prev_update_txout ?pu = Some txout" using pu(3) by auto
  have ps: "length (prevouts ?pu) = 2" using pu(4) by (simp add: prevouts_def split: option.splits)
  from works_signs [OF works _ _ keys(2), of 1 "transaction ?pu" "prevouts ?pu" rng] ps ins obtain v' where
    "add_prev_update_sig C ?pu sk tweak' rng =
      (Ok (), ?pu\<lparr>transaction := (transaction pu)\<lparr>tx_input := [i0\<lparr>witness := [v]\<rparr>, i1\<lparr>witness := [v']\<rparr>]\<rparr>\<rparr>)"
    by (auto simp: add_prev_update_sig_Some [OF prev])
  with first pu(1) show ?thesis by (simp add: sign_both_inputs_def)
qed

lemma sign_tests:
  assumes "amount_ops (amount_add B) (amount_sub B)" and "crypto_works C"
  shows "test_add_signature_with_no_tweak B C addr sk rng"
    "signing_keypair C sk (Some tweak) = Ok kp \<Longrightarrow> signing_keypair C sk (Some tweak') = Ok kp' \<Longrightarrow>
     test_add_signature_with_tweak B C addr sk tweak tweak' rng"
  using sign_both [OF assms] by (simp_all add: test_add_signature_with_no_tweak_def
      test_add_signature_with_tweak_def signing_keypair_def)

lemma mock_error_test:
  assumes amounts: "amount_ops (amount_add B) (amount_sub B)"
  shows "test_add_signature_mock_error_should_fail B C addr invalid_tweak sk tweak tweak' rng"
proof -
  obtain pu :: "'a PayoutUpdate" where
    pu: "payout_new B (Some create_dummy_transaction) create_dummy_transaction addr 1000 = Ok pu"
      "prev_update_txout pu \<noteq> None"
    using test_payout [OF amounts, of "Some create_dummy_transaction" addr] by (metis option.distinct(1))
  then obtain txout where prev: "prev_update_txout pu = Some txout" by blast
  then show ?thesis
    using pu(1) by (auto simp: test_add_signature_mock_error_should_fail_def add_coinbase_sig_def
        add_prev_update_sig_Some [OF prev] add_signature_def signature_bytes_def signing_keypair_def Let_def)
qed

end
