(* ===== verification/TaskScenarios.thy ===== *)
theory TaskScenarios
  imports Scenarios
begin

text \<open>
  More unit tests of the repository as predicates on the model: those that vary the configuration
  document, and those that run a whole task. A test that awaits a task holds if its assertions
  hold in every run of the task that has come to its end, and there is such a run; the test of
  the heartbeat holds if they do in every run of that task within the time the test gives it.
\<close>

section \<open>Documents\<close>

text \<open>A raw string of the tests: every line starts after a line break.\<close>

definition document :: "string list \<Rightarrow> string" where
  "document ls = concat (map (\<lambda>l. CHR 0x0A # l) ls)"

definition parsed_defaults :: "(string \<Rightarrow> unit + ConfigFields option) \<Rightarrow> string \<Rightarrow> bool" where
  "parsed_defaults toml doc \<longleftrightarrow>
     (case parse_config_from_string toml doc of Some conf \<Rightarrow> all_defaults conf | None \<Rightarrow> False)"

definition it_should_load_default_for_missing_fields :: "(string \<Rightarrow> unit + ConfigFields option) \<Rightarrow> bool" where
  "it_should_load_default_for_missing_fields toml \<longleftrightarrow>
     parsed_defaults toml (document [''    [network]'', ''    bind=\"localhost\"''])"

definition it_should_load_default_for_missing_fields_for_network ::
    "(string \<Rightarrow> unit + ConfigFields option) \<Rightarrow> bool" where
  "it_should_load_default_for_missing_fields_for_network toml \<longleftrightarrow>
     parsed_defaults toml (document [''    [network]''])"

definition it_should_load_default_for_missing_fields_for_peer ::
    "(string \<Rightarrow> unit + ConfigFields option) \<Rightarrow> bool" where
  "it_should_load_default_for_missing_fields_for_peer toml \<longleftrightarrow>
     parsed_defaults toml (document [''    [peer]''])"

definition two_sections :: string where
  "two_sections = document [''    [network]'', ''    bind=\"localhost\"'', ''    [peer]'',
     ''    max_peer_count = 100'', ''    seeds = [\"1.2.3.4:8080\"]'']"

definition it_should_load_default_for_missing_fields_in_multiple_sections ::
    "(string \<Rightarrow> unit + ConfigFields option) \<Rightarrow> bool" where
  "it_should_load_default_for_missing_fields_in_multiple_sections toml \<longleftrightarrow>
     (case parse_config_from_string toml two_sections of
        Some conf \<Rightarrow>
          bind (network conf) = ''localhost'' \<and>
          seeds (peer conf) = [''1.2.3.4:8080''] \<and> max_peer_count (peer conf) = 100 \<and>
          max_pending_messages (peer conf) = 32 \<and> max_pending_send_to_all (peer conf) = 128 \<and>
          heartbeat_interval (peer conf) = 1000
      | None \<Rightarrow> False)"

text \<open>The test runs in node/config, where there is no \<open>config.toml\<close>: opening it fails.\<close>

definition it_should_load_config_without_errors :: "(string \<Rightarrow> unit + ConfigFields option) \<Rightarrow> bool" where
  "it_should_load_config_without_errors toml \<longleftrightarrow>
     (case load_config_from_file (\<lambda>path. Inl () :: unit + unit) (\<lambda>f. Inl ()) toml ''config.toml'' of
        Some conf \<Rightarrow> all_defaults conf
      | None \<Rightarrow> False)"

text \<open>What a TOML parser makes of these documents.\<close>

definition no_peer_fields :: PeerFields where
  "no_peer_fields =
     \<lparr>given_seeds = None, given_max_peer_count = None, given_max_pending_messages = None,
      given_max_pending_send_to_all = None, given_heartbeat_interval = None\<rparr>"

definition reads_documents :: "(string \<Rightarrow> unit + ConfigFields option) \<Rightarrow> bool" where
  "reads_documents toml \<longleftrightarrow>
     toml (document [''    [network]'', ''    bind=\"localhost\"'']) =
       Inr (Some \<lparr>given_network = Some \<lparr>given_bind = Some ''localhost'', given_port = None\<rparr>, given_peer = None\<rparr>) \<and>
     toml (document [''    [network]'']) =
       Inr (Some \<lparr>given_network = Some \<lparr>given_bind = None, given_port = None\<rparr>, given_peer = None\<rparr>) \<and>
     toml (document [''    [peer]'']) =
       Inr (Some \<lparr>given_network = None, given_peer = Some no_peer_fields\<rparr>) \<and>
     toml two_sections =
       Inr (Some \<lparr>given_network = Some \<lparr>given_bind = Some ''localhost'', given_port = None\<rparr>,
                  given_peer = Some (no_peer_fields\<lparr>given_seeds := Some [''1.2.3.4:8080''],
                    given_max_peer_count := Some 100\<rparr>)\<rparr>)"

lemma document_tests:
  "reads_documents toml \<Longrightarrow> it_should_load_default_for_missing_fields toml"
  "reads_documents toml \<Longrightarrow> it_should_load_default_for_missing_fields_for_network toml"
  "reads_documents toml \<Longrightarrow> it_should_load_default_for_missing_fields_for_peer toml"
  "reads_documents toml \<Longrightarrow> it_should_load_default_for_missing_fields_in_multiple_sections toml"
  "it_should_load_config_without_errors toml"
  by (simp_all add: it_should_load_default_for_missing_fields_def reads_documents_def
      it_should_load_default_for_missing_fields_for_network_def no_peer_fields_def
      it_should_load_default_for_missing_fields_for_peer_def parsed_defaults_def
      it_should_load_default_for_missing_fields_in_multiple_sections_def all_defaults_def
      it_should_load_config_without_errors_def load_config_from_file_def read_file_def
      parse_config_from_string_def fill_config_def fill_network_def fill_peer_def default_defs)

section \<open>Tests that run a task\<close>

text \<open>
  What the stream of a test delivers: its messages in order, then the end. \<open>when_done\<close> is a test that
  awaits the task and then asserts.
\<close>

fun read_item :: "'io event \<Rightarrow> ('io + bytes) option list" where
  "read_item (EvRead item) = [item]"
| "read_item _ = []"

definition delivers :: "bytes list \<Rightarrow> 'io event list \<Rightarrow> bool" where
  "delivers stream evs \<longleftrightarrow>
     (let reads = concat (map read_item evs) in
      take (length stream) reads = take (length reads) (map (Some \<circ> Inr) stream) \<and>
      list_all (\<lambda>item. item = None) (drop (length stream) reads))"

definition when_done ::
    "('ch, 'e) env \<Rightarrow> bytes list \<Rightarrow> ConnectionManager \<times> 'ch link
     \<Rightarrow> (ConnectionManager \<times> 'ch link \<Rightarrow> bool) \<Rightarrow> bool" where
  "when_done E stream s asserts \<longleftrightarrow>
     (\<forall>evs :: unit event list. \<forall>t. task_run E s evs t \<longrightarrow> delivers stream evs \<longrightarrow>
        terminated (phase (snd t)) \<longrightarrow> asserts t) \<and>
     (\<exists>evs :: unit event list. \<exists>t. task_run E s evs t \<and> delivers stream evs \<and> terminated (phase (snd t)))"

definition test_env :: "(Message \<Rightarrow> bytes option) \<Rightarrow> (bytes \<Rightarrow> string + Message) \<Rightarrow> (queue, string) env" where
  "test_env ser de =
     \<lparr>codec_ser = ser, codec_de = de, ch_new = queue_create, ch_try_send = queue_try_send,
      ch_recv = queue_recv, ch_close = queue_close\<rparr>"

definition test_addr :: SocketAddr where
  "test_addr = V4 127 0 0 1 8080"

text \<open>
  The stream is empty; the two messages the test sends on its clone of the sender are in the channel
  when the task starts.
\<close>

definition it_should_add_to_connection_manager_on_starting_connection ::
    "(Message \<Rightarrow> bytes option) \<Rightarrow> (bytes \<Rightarrow> string + Message) \<Rightarrow> bool" where
  "it_should_add_to_connection_manager_on_starting_connection ser de \<longleftrightarrow>
     (case first_frame (test_env ser de) test_addr of
        Ok message_bytes \<Rightarrow>
          when_done (test_env ser de) []
            (manager_new 3, fresh_link test_addr ((queue_new 3)\<lparr>items := [message_bytes,
               [104, 101, 108, 108, 111, 32, 119, 111, 114, 108, 100]]\<rparr>))
            (\<lambda>(start_manager, l). num_connections start_manager = 0)
      | _ \<Rightarrow> False)"

definition it_should_shutdown_connection_if_peer_is_flooding_it ::
    "(Message \<Rightarrow> bytes option) \<Rightarrow> (bytes \<Rightarrow> string + Message) \<Rightarrow> bool" where
  "it_should_shutdown_connection_if_peer_is_flooding_it ser de \<longleftrightarrow>
     (case first_frame (test_env ser de) test_addr of
        Ok msg_bytes \<Rightarrow>
          when_done (test_env ser de) [msg_bytes, msg_bytes]
            (manager_new 3, fresh_link test_addr (queue_new 1))
            (\<lambda>(start_manager, l). shut (chan l) \<and> num_connections start_manager = 0)
      | _ \<Rightarrow> False)"

text \<open>
  The heartbeat task of the test is the one of theory Node, alone with a table that the test has
  filled, a broadcast channel with one receiver and a permit from the test's \<open>notify_one\<close>. What it does
  while the test sleeps for 5 milliseconds is any run of its rounds and of time; the assertion is
  about what the receiver finds first, and in a run without a tick the receiver still waits.
\<close>

definition test_heart :: "ConnectionManager \<Rightarrow> sent_log \<Rightarrow> Interval \<Rightarrow> (queue, sent_log, nat, Interval) node" where
  "test_heart start_manager sender iv =
     (node_init start_manager sender iv [])\<lparr>permit := True\<rparr>"

fun heart_event :: "'io node_event \<Rightarrow> bool" where
  "heart_event (Beat w) = True"
| "heart_event (Elapse d) = True"
| "heart_event _ = False"

definition it_should_start_heartbeat_without_errors_and_handle_ticks ::
    "(string \<Rightarrow> SocketAddr list option) \<Rightarrow> (Message \<Rightarrow> bytes option) \<Rightarrow> SystemTime \<Rightarrow> bool" where
  "it_should_start_heartbeat_without_errors_and_handle_ticks rslv ser now \<longleftrightarrow>
     (case (log_create 10, start_heartbeat interval_new rslv ser now (addr_to_string test_addr) 1) of
        (Ok (sender, receiver), Ok (frame_bytes, iv)) \<Rightarrow>
          (let (inserted, start_manager) = manager_insert (manager_new 3) test_addr \<lparr>created_at = now\<rparr>;
               E = sample_node_env\<lparr>beat := frame_bytes\<rparr>;
               while_asleep = (\<lambda>(evs :: unit node_event list) n.
                 node_run E (test_heart start_manager sender iv) evs n \<and> list_all heart_event evs \<and> clock n \<le> 5)
           in inserted = Ok None \<and>
              (\<forall>evs n. while_asleep evs n \<longrightarrow> beating n \<and>
                 fst (log_recv (bcast n) receiver) = (if Beat Tick \<in> set evs then Received frame_bytes else Quiet)) \<and>
              (\<exists>evs n. while_asleep evs n \<and> Beat Tick \<in> set evs))
      | _ \<Rightarrow> False)"

text \<open>One task on an empty table: when it is over the table is empty and its channel is closed.\<close>

definition alone :: "ConnectionManager \<times> queue link \<Rightarrow> bool" where
  "alone s \<longleftrightarrow> manager_wf (fst s) \<and> dom (manager_get (fst s)) \<subseteq> {peer_addr (snd s)} \<and>
     (phase (snd s) \<in> {Spawned, Refused, Finished} \<longrightarrow> manager_get (fst s) (peer_addr (snd s)) = None) \<and>
     (phase (snd s) \<in> {Draining, WriterClosed, Finished} \<longrightarrow> shut (chan (snd s)))"

lemma step_alone: "task_step (test_env ser de) s ev t \<Longrightarrow> alone s \<Longrightarrow> alone t"
proof (induction rule: task_step.induct)
  case (refuse l m md e m')
  from refuse.hyps(2) have "manager_wf m \<Longrightarrow> m' = m" by (cases rule: mgr.ins_cases) simp_all
  with refuse show ?case by (simp add: alone_def)
next
  case (register l m md old m')
  have "manager_wf m" using register.prems by (simp add: alone_def)
  with register.hyps(2) show ?case
    by (cases rule: mgr.ins_cases) (use register in \<open>auto simp: alone_def\<close>)
next
  case (remove l m old m')
  have "manager_wf m" using remove.prems by (simp add: alone_def)
  with remove.hyps(2) show ?case
    by (cases rule: mgr.rem_cases) (use remove in \<open>auto simp: alone_def\<close>)
qed (auto simp: alone_def test_env_def queue_close_def)

interpretation single: preserved "task_step (test_env ser de)" alone for ser de
  by unfold_locales (rule step_alone)

lemma test_ops: "channel_ops (test_env ser de) items shut size_limit"
  by (simp add: channel_ops_def test_env_def queue.mpsc_axioms)

lemma alone_start: "alone (manager_new n, fresh_link a ch)"
  by (simp add: alone_def manager_new_def manager_wf_def manager_get_def [abs_def])

text \<open>With a limit of three, the only task is not refused; it comes to its end with everything undone.\<close>

lemma alone_done:
  assumes total: "\<And>msg. ser msg \<noteq> None" and fresh: "\<not> shut ch"
    and run: "task_run (test_env ser de) (manager_new 3, fresh_link a ch) (evs :: unit event list) t"
    and over: "terminated (phase (snd t))"
  shows "num_connections (fst t) = 0 \<and> shut (chan (snd t))"
proof -
  obtain m l where t: "t = (m, l)" by (cases t)
  have alone: "alone (m, l)" using single.run_keeps [OF run alone_start] t by simp
  have "phase l \<noteq> Crashed"
    using task_never_panics [OF test_ops _ run [unfolded t]] total fresh by (simp add: test_env_def)
  moreover have "phase l \<noteq> Refused"
  proof
    assume "phase l = Refused"
    with run_shape [OF link_runI [OF run]] t obtain md where "evs = [EvInsert md]" by auto
    with run t \<open>phase l = Refused\<close> show False
      by (auto simp: task.run_iff manager_defs map_len_def word_le_nat_alt split: if_splits)
  qed
  ultimately have fin: "phase l = Finished" using over t by (auto simp: terminated_def)
  with alone have "dom (manager_get m) = {}" by (auto simp: alone_def)
  moreover have "manager_wf m" using alone by (simp add: alone_def)
  ultimately have "num_connections m = 0"
    using unat_num_connections [of m] by (simp add: unat_eq_0)
  with alone fin t show ?thesis by (simp add: alone_def)
qed

lemma when_doneI:
  assumes "\<And>(evs :: unit event list) t. task_run E s evs t \<Longrightarrow> terminated (phase (snd t)) \<Longrightarrow> P t"
    and "task_run E s (evs :: unit event list) t" "delivers stream evs" "terminated (phase (snd t))"
  shows "when_done E stream s P"
  using assms unfolding when_done_def by blast

lemma task_tests:
  assumes total: "\<And>msg. ser msg \<noteq> None"
  shows "it_should_add_to_connection_manager_on_starting_connection ser de"
    "it_should_shutdown_connection_if_peer_is_flooding_it ser de"
proof -
  obtain b where frame: "first_frame (test_env ser de) test_addr = Ok b"
    using first_frame_total [of "test_env ser de" test_addr] total by (auto simp: test_env_def)
  have short: "\<exists>t. task_run (test_env ser de) (manager_new 3, fresh_link test_addr ch)
      [EvInsert \<lparr>created_at = 0\<rparr>, EvHandshake True, EvRead None, EvCloseWriter, EvRemove :: unit event] t \<and>
      terminated (phase (snd t))" for ch
    by (simp add: task.run_iff frame manager_defs map_len_def word_le_nat_alt read_iteration_def terminated_def)
  let ?ch = "(queue_new 3)\<lparr>items := [b, [104, 101, 108, 108, 111, 32, 119, 111, 114, 108, 100]]\<rparr>"
  obtain t where done1: "task_run (test_env ser de) (manager_new 3, fresh_link test_addr ?ch)
      [EvInsert \<lparr>created_at = 0\<rparr>, EvHandshake True, EvRead None, EvCloseWriter, EvRemove :: unit event] t"
    "terminated (phase (snd t))"
    using short by blast
  have "when_done (test_env ser de) [] (manager_new 3, fresh_link test_addr ?ch)
      (\<lambda>(start_manager, l). num_connections start_manager = 0)"
    by (rule when_doneI [OF _ done1(1) _ done1(2)])
      (use alone_done [where ser = ser and de = de, OF total, of ?ch] in
        \<open>fastforce simp: queue_new_def, simp add: delivers_def\<close>)
  with frame show "it_should_add_to_connection_manager_on_starting_connection ser de"
    by (simp add: it_should_add_to_connection_manager_on_starting_connection_def)
  let ?evs = "[EvInsert \<lparr>created_at = 0\<rparr>, EvHandshake True, EvRead (Some (Inr b)), EvRead (Some (Inr b)),
      EvCloseWriter, EvRemove] :: unit event list"
  have reads: "read_iteration (ch_try_send (test_env ser de)) (Some (Inr b) :: (unit + bytes) option) (queue_new 1) =
      (Continue, (queue_new 1)\<lparr>items := [b]\<rparr>)"
    "read_iteration (ch_try_send (test_env ser de)) (Some (Inr b) :: (unit + bytes) option)
       ((queue_new 1)\<lparr>items := [b]\<rparr>) = (Return (Err ''Sender flooding channel''), (queue_new 1)\<lparr>items := [b]\<rparr>)"
    by (simp_all add: read_iteration_def test_env_def queue_defs)
  obtain t where done2: "task_run (test_env ser de) (manager_new 3, fresh_link test_addr (queue_new 1)) ?evs t"
    "terminated (phase (snd t))"
    by (simp add: task.run_iff frame reads manager_defs map_len_def word_le_nat_alt terminated_def
        del: One_nat_def)
  have "when_done (test_env ser de) [b, b] (manager_new 3, fresh_link test_addr (queue_new 1))
      (\<lambda>(start_manager, l). shut (chan l) \<and> num_connections start_manager = 0)"
    by (rule when_doneI [OF _ done2(1) _ done2(2)])
      (use alone_done [where ser = ser and de = de, OF total, of "queue_new 1"] in
        \<open>fastforce simp: queue_new_def, simp add: delivers_def\<close>)
  with frame show "it_should_shutdown_connection_if_peer_is_flooding_it ser de"
    by (simp add: it_should_shutdown_connection_if_peer_is_flooding_it_def)
qed

text \<open>While the task is alone it ticks at most once per millisecond, and every tick finds the receiver.\<close>

definition heart_ok :: "ConnectionManager \<Rightarrow> bytes \<Rightarrow> (queue, sent_log, nat, Interval) node \<Rightarrow> bool" where
  "heart_ok m frame_bytes n \<longleftrightarrow>
     beating n \<and> manager n = m \<and> receiver_count (bcast n) = 1 \<and> window (bcast n) = 10 \<and>
     every (interval n) = 1 \<and> set (sent_values (bcast n)) \<subseteq> {frame_bytes} \<and>
     length (sent_values (bcast n)) \<le> due_at (interval n) \<and> due_at (interval n) \<le> clock n + 1"

lemma heart_step:
  assumes "node_step (sample_node_env\<lparr>beat := b\<rparr>) n ev n'" and "heart_event ev"
    and "heart_ok m b n" and "num_connections m > 0"
  shows "heart_ok m b n' \<and> (sent_values (bcast n') \<noteq> [] \<longleftrightarrow> sent_values (bcast n) \<noteq> [] \<or> ev = Beat Tick)"
proof (cases ev)
  case (Beat w)
  with assms show ?thesis
    by (cases w) (auto simp: node_next_def beat_event_def heart_ok_def heartbeat_iteration_def
        sample_node_env_def log_send_def interval_defs split: if_splits)
next
  case (Elapse d)
  with assms show ?thesis by (auto simp: node_next_def elapse_def heart_ok_def split: if_splits)
qed (use assms(2) in simp_all)

lemma heart_run:
  "node_run (sample_node_env\<lparr>beat := b\<rparr>) s evs n \<Longrightarrow> list_all heart_event evs \<Longrightarrow> heart_ok m b s \<Longrightarrow>
   num_connections m > 0 \<Longrightarrow>
   heart_ok m b n \<and> (sent_values (bcast n) \<noteq> [] \<longleftrightarrow> sent_values (bcast s) \<noteq> [] \<or> Beat Tick \<in> set evs)"
proof (induction rule: run.induct)
  case (more s evs t ev u)
  then show ?case using heart_step [OF more.hyps(2), of m] by auto
qed simp

lemma heart_receives:
  assumes "heart_ok m b n" and "clock n \<le> 5"
  shows "fst (log_recv (bcast n) 0) = (if sent_values (bcast n) = [] then Quiet else Received b)"
proof (cases "sent_values (bcast n)")
  case (Cons v vs)
  with assms show ?thesis by (auto simp: heart_ok_def log_recv_def)
qed (simp add: log_recv_def)

lemma heartbeat_test:
  assumes "rslv ''127.0.0.1:8080'' = Some (a # rest)" and "\<And>msg. ser msg \<noteq> None"
  shows "it_should_start_heartbeat_without_errors_and_handle_ticks rslv ser now"
proof -
  have addr: "addr_to_string test_addr = ''127.0.0.1:8080''"
    by (simp add: test_addr_def ipv4_to_string_def dec_def radix.simps digit_char_def)
  obtain b where "ser (Heartbeat \<lparr>from_addr = addr_to_string a, time = now\<rparr>) = Some b"
    using assms(2) by blast
  with assms(1) have frame: "heartbeat_message rslv ser now (addr_to_string test_addr) = (Ok b :: (bytes, string) outcome)"
    by (simp add: heartbeat_message_Ok addr)
  let ?m = "\<lparr>capacity = 3, shared_state = [(test_addr, \<lparr>created_at = now\<rparr>)]\<rparr>"
    and ?sender = "\<lparr>sent_values = [], window = 10, receiver_count = 1\<rparr>" and ?iv = "\<lparr>due_at = 0, every = 1\<rparr>"
  let ?E = "sample_node_env\<lparr>beat := b\<rparr>" and ?s = "test_heart ?m ?sender ?iv"
  have insert: "manager_insert (manager_new 3) test_addr \<lparr>created_at = now\<rparr> = (Ok None, ?m)"
    by (simp add: manager_defs map_len_def word_le_nat_alt)
  have ok: "heart_ok ?m b ?s" "num_connections ?m > 0" "sent_values (bcast ?s) = []"
    by (simp_all add: heart_ok_def test_heart_def node_init_def manager_defs map_len_def)
  have all: "beating n \<and> fst (log_recv (bcast n) 0) = (if Beat Tick \<in> set evs then Received b else Quiet)"
    if "node_run ?E ?s evs n" "list_all heart_event evs" "clock n \<le> 5" for evs :: "unit node_event list" and n
  proof -
    from heart_run [OF that(1,2) ok(1,2)] ok(3)
    have "heart_ok ?m b n" "sent_values (bcast n) \<noteq> [] \<longleftrightarrow> Beat Tick \<in> set evs" by auto
    with heart_receives [OF _ that(3)] show ?thesis by (auto simp: heart_ok_def)
  qed
  obtain n where "node_run ?E ?s [Beat Notified, Elapse 1, Beat Tick :: unit node_event] n" "clock n = 1"
    unfolding node.run_iff
    by (simp add: test_heart_def node_init_def node_next_def main_running_def beat_event_def elapse_def sample_node_env_def
        heartbeat_iteration_def interval_defs log_send_def manager_defs map_len_def)
  then have "\<exists>evs n. (node_run ?E ?s (evs :: unit node_event list) n \<and> list_all heart_event evs \<and> clock n \<le> 5) \<and>
      Beat Tick \<in> set evs"
    by (intro exI [of _ "[Beat Notified, Elapse 1, Beat Tick]"] exI [of _ n]) simp
  with frame insert all show ?thesis
    unfolding it_should_start_heartbeat_without_errors_and_handle_ticks_def
    by (simp add: start_heartbeat_def log_create_def interval_new_def Let_def) blast
qed

end
