(* ===== verification/Timing.thy ===== *)
theory Timing
  imports Delivery
begin

text \<open>
  The heartbeat over time: what the interval of the running node does is what the timer of
  theory Timer does on the projection of the run to its ticks, its resets and the passing of
  time. So its bounds hold of the node, whatever its other tasks do.
\<close>

section \<open>The interval of a run\<close>

fun timer_of :: "'io node_event \<Rightarrow> timer_event list" where
  "timer_of (Elapse d) = [Pass d]"
| "timer_of (Beat Tick) = [Fire]"
| "timer_of (Beat Notified) = [Restart]"
| "timer_of _ = []"

definition timer_trace :: "'io node_event list \<Rightarrow> timer_event list" where
  "timer_trace evs = concat (map timer_of evs)"

lemma timer_trace_simps [simp]:
  "timer_trace [] = []" "timer_trace (ev # evs) = timer_of ev @ timer_trace evs"
  "timer_trace (evs @ evs') = timer_trace evs @ timer_trace evs'"
  by (simp_all add: timer_trace_def)

lemma timer_of_iff:
  "Fire \<in> set (timer_of ev) \<longleftrightarrow> ev = Beat Tick"
  "Restart \<in> set (timer_of ev) \<longleftrightarrow> ev = Beat Notified"
  by (cases ev rule: timer_of.cases; simp)+

lemma timer_trace_iff [simp]:
  "Fire \<in> set (timer_trace evs) \<longleftrightarrow> Beat Tick \<in> set evs"
  "Restart \<in> set (timer_trace evs) \<longleftrightarrow> Beat Notified \<in> set evs"
  by (auto simp: timer_trace_def timer_of_iff)

definition iv_ops :: "('ch, 'e, 'b, 'r, 'iv) node_env \<Rightarrow> ('iv \<Rightarrow> nat) \<Rightarrow> ('iv \<Rightarrow> nat) \<Rightarrow> bool" where
  "iv_ops E due period \<longleftrightarrow> timer (iv_ready E) (iv_tick E) (iv_reset E) due period"

lemma iv_opsD: "iv_ops E due period \<Longrightarrow> timer (iv_ready E) (iv_tick E) (iv_reset E) due period"
  by (simp add: iv_ops_def)

lemma sample_iv_ops: "iv_ops sample_node_env due_at every"
  by (simp add: iv_ops_def sample_node_env_def burst.timer_axioms)

abbreviation timer_state :: "('ch, 'b, 'r, 'iv) node \<Rightarrow> nat \<times> 'iv" where
  "timer_state n \<equiv> (clock n, interval n)"

abbreviation node_timer ::
    "('ch, 'e, 'b, 'r, 'iv) node_env \<Rightarrow> nat \<times> 'iv \<Rightarrow> timer_event \<Rightarrow> (nat \<times> 'iv) option" where
  "node_timer E \<equiv> timer_next (iv_ready E) (iv_tick E) (iv_reset E)"

lemma iteration_interval:
  "heartbeat_iteration send tick rst m msg w (b, iv) = (flow, b', iv') \<Longrightarrow>
   iv' = (case w of Tick \<Rightarrow> tick iv | Notified \<Rightarrow> rst iv)"
  by (auto simp: heartbeat_iteration_def split: wakeup.splits if_splits prod.splits sum.splits)

lemma step_timer:
  assumes "node_step E n ev n'"
  shows "run_fun (node_timer E) (timer_of ev) (timer_state n) = Some (timer_state n')"
  using assms
proof (cases rule: node_cases)
  case (beat w flow b' iv')
  with iteration_interval [OF beat(4)] show ?thesis by (cases w) auto
qed simp_all

lemma run_timer:
  "node_run E s evs t \<Longrightarrow>
   run_fun (node_timer E) (timer_trace evs) (timer_state s) = Some (timer_state t)"
proof (induction rule: run.induct)
  case (more s evs t ev u)
  then show ?case using step_timer [OF more.hyps(2)] by (simp add: run_fun_append)
qed simp

section \<open>Ticks and broadcasts\<close>

lemma step_sends_tick: "length (step_sends E n ev n') \<le> count_list (timer_of ev) Fire"
  by (simp add: step_sends_def)

lemma run_sends:
  assumes ops: "bc_ops E log receivers pos limit"
  shows "node_run E s evs t \<Longrightarrow>
    length (log (bcast t)) \<le> length (log (bcast s)) + count_list (timer_trace evs) Fire"
proof (induction rule: run.induct)
  case (more s evs t ev u)
  then show ?case using step_log [OF ops more.hyps(2)] step_sends_tick [of E t ev u] by simp
qed simp

lemma no_tick_no_broadcast:
  assumes ops: "bc_ops E log receivers pos limit"
  shows "node_run E s evs t \<Longrightarrow> Beat Tick \<notin> set evs \<Longrightarrow> log (bcast t) = log (bcast s)"
proof (induction rule: run.induct)
  case (more s evs t ev u)
  then show ?case using step_log [OF ops more.hyps(2)] by (auto simp: step_sends_def)
qed simp

text \<open>Without a round of its own the heartbeat task stays as it is.\<close>

lemma step_beating:
  assumes "node_step E n ev n'" and "\<forall>w. ev \<noteq> Beat w"
  shows "beating n' = beating n"
  using assms(1) by (cases rule: node_cases) (use assms(2) in auto)

lemma run_beating:
  "node_run E s evs t \<Longrightarrow> \<forall>w. Beat w \<notin> set evs \<Longrightarrow> beating t = beating s"
proof (induction rule: run.induct)
  case (more s evs t ev u)
  then show ?case using step_beating [OF more.hyps(2)] by auto
qed simp

lemma tick_enabled:
  assumes "main_running n" and "beating n" and "iv_ready E (clock n) (interval n)"
  shows "\<exists>n'. node_step E n (Beat Tick :: 'io node_event) n'"
proof -
  obtain flow b' iv' where "heartbeat_iteration (bc_send E) (iv_tick E) (iv_reset E (clock n))
      (manager n) (beat E) Tick (bcast n, interval n) = (flow, b', iv')"
    by (metis prod_cases3)
  with assms show ?thesis by (simp add: node_next_def beat_event_def)
qed

lemma broadcasts_in_time:
  assumes tokio: "interval_timer (iv_ready E) (iv_tick E) (iv_reset E) due period iv_new"
      "bc_ops E log receivers pos limit"
    and start: "iv_new d = Ok iv" "log b = []"
    and run: "node_run E (node_init m b iv peers) evs n"
  shows "length (log (bcast n)) * unat d \<le> clock n + unat d"
proof -
  have tm: "timer (iv_ready E) (iv_tick E) (iv_reset E) due period"
    using tokio(1) by (rule interval_timer.axioms)
  have iv: "due iv = 0" "period iv = unat d"
    using interval_timer.create_zero [OF tokio(1)] interval_timer.create_due [OF tokio(1), of d] start(1)
    by (cases "d = 0"; auto)+
  note timed = run_timer [OF run]
  have "count_list (timer_trace evs) Fire * unat d \<le> elapsed (timer_trace evs) + unat d"
    using timer.ticks_bounded [OF tm timed] iv by (simp add: node_init_def)
  moreover have "clock n = elapsed (timer_trace evs)"
    using timer.run_due [OF tm timed] iv by (simp add: node_init_def)
  moreover have "length (log (bcast n)) \<le> count_list (timer_trace evs) Fire"
    using run_sends [OF tokio(2) run] start(2) by (simp add: node_init_def)
  then have "length (log (bcast n)) * unat d \<le> count_list (timer_trace evs) Fire * unat d"
    by (rule mult_le_mono1)
  ultimately show ?thesis by linarith
qed

section \<open>A node under refused connections\<close>

text \<open>
  A node with one peer, its table full, and the default interval of one second. Every 600
  milliseconds another peer connects and is refused.
\<close>

definition slow_node :: "(queue, sent_log, nat, Interval) node" where
  "slow_node = node_init (manager_new 1) sample_bcast \<lparr>due_at = 0, every = 1000\<rparr> []"

definition first_peer :: "unit node_event list" where
  "first_peer = connect_peer @ [NotifyOne, Beat Notified]"

definition refusal :: "nat \<Rightarrow> unit node_event list" where
  "refusal i =
     [Elapse 600, Accept (Some (V4 10 0 0 2 5000)), OfTask i (EvInsert \<lparr>created_at = 0\<rparr>), NotifyOne,
      Beat Notified]"

definition refusals :: "nat \<Rightarrow> unit node_event list" where
  "refusals k = concat (map (\<lambda>i. refusal (Suc i)) [0..<k])"

definition besieged_node :: "nat \<Rightarrow> (queue, sent_log, nat, Interval) node" where
  "besieged_node k =
     \<lparr>manager = \<lparr>capacity = 1, shared_state = [(V4 10 0 0 1 5000, \<lparr>created_at = 0\<rparr>)]\<rparr>,
      tasks = (\<lparr>peer_addr = V4 10 0 0 1 5000, phase = Running, chan = queue_new 2, sent = [hello_frame],
                listens = True\<rparr>, 0) #
        replicate k (\<lparr>peer_addr = V4 10 0 0 2 5000, phase = Refused, chan = queue_new 2, sent = [],
                listens = True\<rparr>, 0),
      bcast = \<lparr>sent_values = [], window = 2, receiver_count = 1\<rparr>, to_dial = [], dialing = [],
      listener = Accepting, beating = True, interval = \<lparr>due_at = 600 * k + 1000, every = 1000\<rparr>,
      clock = 600 * k, permit = False\<rparr>"

lemma first_peer_computes:
  "run_fun (node_next sample_node_env) first_peer slow_node = Some (besieged_node 0)"
  by (simp add: first_peer_def connect_peer_def slow_node_def besieged_node_def sample_node_defs)

lemma refusal_computes:
  "run_fun (node_next sample_node_env) (refusal (Suc k)) (besieged_node k) = Some (besieged_node (Suc k))"
  by (simp add: refusal_def besieged_node_def sample_node_defs nth_append list_update_append
      replicate_append_same)

lemma refusals_computes:
  "run_fun (node_next sample_node_env) (refusals k) (besieged_node 0) = Some (besieged_node k)"
  by (induction k) (simp_all add: refusals_def run_fun_append refusal_computes)

section \<open>Properties\<close>

text \<open>
  C11. The heartbeat can be starved: after a round that reset the interval, as long as the next
  reset always comes before a period has passed, the heartbeat task never ticks, nothing is
  broadcast, and no tick is due in the end, however long the run and whatever the other tasks do.
\<close>

theorem restarts_starve_heartbeat:
  assumes tokio: "iv_ops E due period" "bc_ops E log receivers pos limit"
    and reset: "node_step E n0 (Beat Notified) n" and period: "0 < period (interval n)"
    and run: "node_run E n evs n'"
    and often: "restarted_in_time (period (interval n)) (period (interval n)) (timer_trace evs)"
  shows "Beat Tick \<notin> set evs \<and> log (bcast n') = log (bcast n) \<and> \<not> iv_ready E (clock n') (interval n')"
proof -
  note tm = iv_opsD [OF tokio(1)]
  from step_timer [OF reset] have "interval n = iv_reset E (clock n) (interval n0)" by auto
  then have "due (interval n) = clock n + period (interval n)"
    by (simp add: timer.due_reset [OF tm] timer.period_keeps [OF tm])
  with timer.starved [OF tm run_timer [OF run] _ period period often]
  have "Beat Tick \<notin> set evs" "clock n' < due (interval n')" by simp_all
  with no_tick_no_broadcast [OF tokio(2) run] show ?thesis by (simp add: timer.ready_iff [OF tm])
qed

lemma restarts_starve_heartbeat_witness:
  "sent_values (bcast (besieged_node 3)) = [] \<and> clock (besieged_node 3) = 1800 \<and>
   \<not> interval_ready (clock (besieged_node 3)) (interval (besieged_node 3))"
proof -
  let ?start = "connect_peer @ [NotifyOne]"
  obtain n0 where "run_fun (node_next sample_node_env) ?start slow_node = Some n0"
    and reset: "node_step sample_node_env n0 (Beat Notified :: unit node_event) (besieged_node 0)"
    using first_peer_computes by (auto simp: first_peer_def run_fun_append bind_eq_Some_conv)
  have run: "node_run sample_node_env (besieged_node 0) (refusals 3) (besieged_node 3)"
    by (simp add: node.run_iff refusals_computes)
  have often: "restarted_in_time 1000 1000 (timer_trace (refusals 3))"
    by (simp add: refusals_def refusal_def upt_rec)
  from restarts_starve_heartbeat [OF sample_iv_ops sample_bc_ops reset _ run] often show ?thesis
    by (simp add: besieged_node_def sample_node_env_def)
qed

text \<open>
  C13. The heartbeat is no faster than configured: however often it is reset or scheduled late,
  in any run from the start the broadcasts times the configured interval are at most the time
  that has passed plus one interval.
\<close>

theorem heartbeats_bounded_by_time:
  assumes tokio: "interval_timer (iv_ready E) (iv_tick E) (iv_reset E) due period iv_new"
      "bc_ops E log receivers pos limit"
    and start: "iv_new d = Ok iv" "log b = []"
    and run: "node_run E (node_init m b iv peers) evs n"
  shows "length (log (bcast n)) * unat d \<le> clock n + unat d"
  using assms by (rule broadcasts_in_time)

lemma sample_interval_timer:
  "interval_timer (iv_ready sample_node_env) (iv_tick sample_node_env) (iv_reset sample_node_env)
     due_at every interval_new"
  by (simp add: sample_node_env_def burst.interval_timer_axioms)

lemma heartbeats_bounded_by_time_witness:
  "length (sent_values (bcast after_visit)) \<le> clock after_visit + 1"
  using heartbeats_bounded_by_time [OF sample_interval_timer sample_bc_ops _ _
      visit_run [unfolded sample_node_def], of 1]
  by (simp add: interval_new_def sample_bcast_def)

text \<open>
  C17. And it is not slower, when nobody resets it: whenever the heartbeat task runs and a whole
  interval has passed without a round of it, its tick is due; when the table is not empty and a
  task still listens to the channel, that tick broadcasts the heartbeat and the task goes on.
\<close>

theorem heartbeat_due_within_interval:
  fixes evs0 evs :: "'io node_event list"
  assumes tokio: "interval_timer (iv_ready E) (iv_tick E) (iv_reset E) due period iv_new"
      "bc_ops E log receivers pos limit"
    and start: "iv_new d = Ok iv" "log b = []" "receivers b = 0"
    and reach: "node_run E (node_init m b iv peers) evs0 n" and alive: "beating n"
    and run: "node_run E n evs n'" and quiet: "\<forall>w. Beat w \<notin> set evs"
    and time: "unat d \<le> elapsed (timer_trace evs)" and up: "main_running n'"
  shows "\<exists>n''. node_step E n' (Beat Tick :: 'io node_event) n'' \<and>
    (num_connections (manager n') > 0 \<and> (dialing n' \<noteq> [] \<or> (\<exists>l \<in> set (links n'). phase l \<le> Running)) \<longrightarrow>
       beating n'' \<and> log (bcast n'') = log (bcast n') @ [beat E])"
proof -
  have tm: "timer (iv_ready E) (iv_tick E) (iv_reset E) due period"
    using tokio(1) by (rule interval_timer.axioms)
  have iv: "due iv = 0" "period iv = unat d"
    using interval_timer.create_zero [OF tokio(1)] interval_timer.create_due [OF tokio(1), of d] start(1)
    by (cases "d = 0"; auto)+
  have "due (interval n) \<le> clock n + unat d"
    using timer.run_due [OF tm run_timer [OF reach]] iv by (simp add: node_init_def)
  with timer.ticks_eventually [OF tm run_timer [OF run]] time quiet
  have ready: "iv_ready E (clock n') (interval n')" by auto
  have "beating n'" using run_beating [OF run quiet] alive by simp
  with ready up obtain n'' where tick: "node_step E n' (Beat Tick :: 'io node_event) n''"
    using tick_enabled by blast
  have count: "receivers (bcast n') = receiver_owners n'"
    using run_receivers [OF tokio(2) run_append [OF run reach]] start(3)
    by (simp add: receiver_owners_def node_init_def)
  have "beating n'' \<and> log (bcast n'') = log (bcast n') @ [beat E]"
    if some: "num_connections (manager n') > 0"
      "dialing n' \<noteq> [] \<or> (\<exists>l \<in> set (links n'). phase l \<le> Running)"
  proof -
    from some(2) have "receivers (bcast n') \<noteq> 0"
      using count by (auto simp: receiver_owners_def filter_empty_conv holds_receiver_def)
    with tick some(1) have "beating n''"
      by (cases rule: node_cases) (auto elim: broadcast_channel.iteration_cases [OF bc_opsD [OF tokio(2)]])
    with step_log [OF tokio(2) tick] some(1) show ?thesis by (simp add: step_sends_def)
  qed
  with tick show ?thesis by blast
qed

lemma heartbeat_due_within_interval_witness:
  "\<exists>n'. node_step sample_node_env (connected_node\<lparr>clock := 1\<rparr>) (Beat Tick :: unit node_event) n' \<and>
     sent_values (bcast n') = [[2, 0]]"
proof -
  have run: "node_run sample_node_env connected_node [Elapse 1 :: unit node_event] (connected_node\<lparr>clock := 1\<rparr>)"
    unfolding node.run_iff by (simp add: connected_node_eq sample_node_defs)
  from heartbeat_due_within_interval [OF sample_interval_timer sample_bc_ops _ _ _
      connected_run [unfolded sample_node_def] _ run, of 1]
  obtain n' where "node_step sample_node_env (connected_node\<lparr>clock := 1\<rparr>) (Beat Tick :: unit node_event) n'"
    and "sent_values (bcast n') = sent_values (bcast connected_node) @ [beat sample_node_env]"
    by (auto simp: interval_new_def sample_bcast_def connected_node_eq main_running_def
        num_connections_def map_len_def less_eq_phase_def)
  then show ?thesis by (auto simp: connected_node_eq sample_node_env_def)
qed

text \<open>
  C15. That starvation needs no privilege: with the table full, strangers who are refused as they
  should be keep the node's one member without any heartbeat for as long as they like, because
  the accept loop notifies on every iteration, whatever became of the connection. After \<open>k\<close>
  refusals, 600 milliseconds apart under an interval of one second, nothing has been sent.
\<close>

theorem refused_peers_silence_heartbeat:
  "\<exists>evs n. node_run sample_node_env slow_node (evs :: unit node_event list) n \<and>
     num_connections (manager n) = 1 \<and> map phase (links n) = Running # replicate k Refused \<and>
     beating n \<and> sent (links n ! 0) = [hello_frame] \<and> sent_values (bcast n) = [] \<and>
     clock n = 600 * k \<and> \<not> iv_ready sample_node_env (clock n) (interval n)"
proof (intro exI conjI)
  show "node_run sample_node_env slow_node (first_peer @ refusals k) (besieged_node k)"
    by (simp add: node.run_iff run_fun_append first_peer_computes refusals_computes)
qed (simp_all add: besieged_node_def num_connections_def sample_node_env_def interval_ready_def map_len_def)

end
