(* ===== verification/Traffic.thy ===== *)
theory Traffic
  imports Delivery
begin

text \<open>
  How much one connection task sends, and why it can end, read off its own events: the facts
  about one end of a connection that the model of several nodes puts together.
\<close>

section \<open>Why a task ends\<close>

text \<open>
  An event after which the other side cannot be blamed: the stream broke or ended, or a send
  failed.
\<close>

fun breaks_off :: "'io event \<Rightarrow> bool" where
  "breaks_off (EvRead (Some (Inr msg))) = False"
| "breaks_off (EvRead item) = True"
| "breaks_off (EvSelect sel ok) = (\<not> ok)"
| "breaks_off _ = False"

text \<open>The messages a task handled that ended it, or would have.\<close>

definition unacceptable :: "('ch, 'e) env \<Rightarrow> bytes \<Rightarrow> bool" where
  "unacceptable E msg \<longleftrightarrow> round_output (codec_ser E) (codec_de E) (FromChannel msg) = None"

lemma handled_of_event: "handled_of (EvSelect sel ok) = (case sel of FromChannel msg \<Rightarrow> [msg] | _ \<Rightarrow> [])"
  by (cases sel) simp_all

lemma round_ends:
  assumes "handler_iteration (codec_ser E) (codec_de E) (record_send ok) sel w = (Return r, w')"
    and "sel \<noteq> AllDisabled" and ok
  shows "\<exists>msg. sel = FromChannel msg \<and> unacceptable E msg"
proof (cases "round_output (codec_ser E) (codec_de E) sel")
  case None
  with assms(2) show ?thesis by (cases sel) (auto simp: unacceptable_def)
next
  case (Some out)
  from handler_iteration_good [OF this] assms(1,3) show ?thesis by auto
qed

text \<open>
  The step that makes a task drain: the stream or a send failed, a message was not acceptable, or
  the channel was full.
\<close>

lemma step_drains:
  assumes ops: "channel_ops E buffered is_closed limit"
  shows "task_step E s ev t \<Longrightarrow> phase (snd s) = Running \<Longrightarrow> phase (snd t) \<noteq> Running \<Longrightarrow>
    \<not> is_closed (chan (snd s)) \<Longrightarrow>
    breaks_off ev \<or> (\<exists>msg \<in> set (handled_of ev). unacceptable E msg) \<or>
    (\<exists>msg. ev = EvRead (Some (Inr msg)) \<and> length (buffered (chan (snd s))) \<ge> limit (chan (snd s)))"
proof (induction rule: task_step.induct)
  case (read_ends l item r ch' m)
  show ?case
  proof (cases "\<exists>msg. item = Some (Inr msg)")
    case True
    then obtain msg where item: "item = Some (Inr msg)" by blast
    obtain res ch2 where send: "ch_try_send E (chan l) msg = (res, ch2)" by (cases "ch_try_send E (chan l) msg")
    with read_ends item have "\<exists>e. res = Inl e"
      by (auto simp: read_iteration_def split: sum.splits TrySendError.splits)
    with send read_ends item show ?thesis
      by (cases rule: mpsc_channel.try_send_cases [OF channel_opsD [OF ops] send]) auto
  next
    case False
    then have "breaks_off (EvRead item)" by (cases "EvRead item" rule: breaks_off.cases) auto
    then show ?thesis by blast
  qed
next
  case (handle_ends l sel ch' ok r sent' m)
  then have "sel \<noteq> AllDisabled" using select_open [OF ops] by fastforce
  with handle_ends round_ends [of E ok sel "sent l" r sent'] show ?case by (auto simp: handled_of_event)
next
  case (handle_panic l sel ch' ok r sent' m)
  then have "sel \<noteq> AllDisabled" using select_open [OF ops] by fastforce
  with handle_panic round_ends [of E ok sel "sent l" r sent'] show ?case by (auto simp: handled_of_event)
qed simp_all

lemma link_open:
  assumes ops: "channel_ops E buffered is_closed limit"
  shows "link_run E l evs l' \<Longrightarrow> chan_open is_closed l \<Longrightarrow> chan_open is_closed l'"
proof (induction rule: run.induct)
  case (more l evs l1 ev l2)
  then show ?case using step_chan_open [OF ops] by (fastforce elim!: link_stepE)
qed

text \<open>The same of a whole run: a channel that was full held as many messages as it could.\<close>

definition gave_cause :: "('ch, 'e) env \<Rightarrow> nat \<Rightarrow> 'io event list \<Rightarrow> bool" where
  "gave_cause E cap evs \<longleftrightarrow> (\<exists>ev \<in> set evs. breaks_off ev) \<or>
     (\<exists>msg \<in> set (handled evs). unacceptable E msg) \<or>
     length (handled evs) + cap < length (reads evs)"

lemma gave_cause_more:
  "gave_cause E cap evs \<Longrightarrow> read_of ev = [] \<Longrightarrow> handled_of ev = [] \<Longrightarrow> gave_cause E cap (evs @ [ev])"
  by (auto simp: gave_cause_def)

lemma running_before:
  "task_step E s ev t \<Longrightarrow> phase (snd t) \<in> {Draining, WriterClosed, Finished} \<Longrightarrow>
   phase (snd s) = Running \<or> phase (snd s) \<in> {Draining, WriterClosed, Finished}"
  by (induction rule: task_step.induct) simp_all

lemma run_ends:
  assumes ops: "channel_ops E buffered is_closed limit"
    and fresh: "phase l = Spawned" "buffered (chan l) = []" "\<not> is_closed (chan l)"
  shows "link_run E l evs l' \<Longrightarrow> phase l' \<in> {Draining, WriterClosed, Finished} \<Longrightarrow>
    gave_cause E (limit (chan l)) evs"
proof (induction evs arbitrary: l' rule: rev_induct)
  case Nil
  with fresh show ?case by auto
next
  case (snoc ev evs)
  from snoc.prems(1) obtain l1 where run: "link_run E l evs l1" and "link_step E l1 ev l'"
    by (rule run_snocE)
  then obtain s t where step: "task_step E s ev t" "snd s = l1" "snd t = l'" by (elim link_stepE)
  from running_before [OF step(1)] snoc.prems(2) step(2,3)
  consider "phase l1 = Running" | "phase l1 \<in> {Draining, WriterClosed, Finished}" by auto
  then show ?case
  proof cases
    case 1
    have "\<not> is_closed (chan l1)"
      using link_open [OF ops run] fresh 1 by (simp add: chan_open_def)
    from step_drains [OF ops step(1)] step(2,3) 1 snoc.prems(2) this
    consider "breaks_off ev" | msg where "msg \<in> set (handled_of ev)" "unacceptable E msg"
      | msg where "ev = EvRead (Some (Inr msg))" "limit (chan l1) \<le> length (buffered (chan l1))"
      by auto
    then show ?thesis
    proof cases
      case 3
      have "reads evs = handled evs @ buffered (chan l1)"
        using run_flow [OF ops run] fresh 1 by auto
      moreover have "limit (chan l1) = limit (chan l)"
        using run_limit [OF ops run] fresh by simp
      ultimately show ?thesis using 3 by (simp add: gave_cause_def)
    qed (auto simp: gave_cause_def)
  next
    case 2
    then have "\<not> phase l1 \<le> Running" by (auto simp: less_eq_phase_def)
    with step_flow [OF ops step(1)] step(2) have "read_of ev = [] \<and> handled_of ev = []" by simp
    with snoc.IH [OF run 2] gave_cause_more show ?thesis by blast
  qed
qed

section \<open>How much a task sends\<close>

text \<open>One frame is answered with one frame or with silence.\<close>

definition elicits :: "('ch, 'e) env \<Rightarrow> bytes \<Rightarrow> nat" where
  "elicits E msg =
     (case codec_de E msg of
        Inr m \<Rightarrow> (case response_for_received m of Ok (Some reply) \<Rightarrow> 1 | _ \<Rightarrow> 0)
      | Inl e \<Rightarrow> 0)"

fun greets :: "'io event \<Rightarrow> nat" where
  "greets (EvHandshake ok) = 1"
| "greets _ = 0"

lemma event_output_length:
  "length (event_output E addr ev) \<le>
     greets ev + sum_list (map (elicits E) (handled_of ev)) + length (taken_of ev)"
proof (cases ev)
  case (EvHandshake ok)
  then show ?thesis by (simp split: outcome.split)
next
  case (EvSelect sel ok)
  then show ?thesis
    by (cases sel) (auto simp: elicits_def split: option.splits sum.splits outcome.splits)
qed simp_all

lemma output_length:
  "length (concat (map (event_output E addr) evs)) \<le>
     sum_list (map greets evs) + sum_list (map (elicits E) (handled evs)) + length (taken evs)"
proof (induction evs)
  case (Cons ev evs)
  then show ?case
    using event_output_length [of E addr ev] by (simp add: handled_def taken_def)
qed (simp add: handled_def taken_def)

text \<open>A task greets at most once.\<close>

lemma io_greets: "list_all is_io evs \<Longrightarrow> sum_list (map greets evs) = 0"
proof (induction evs)
  case (Cons ev evs)
  then show ?case by (cases ev) simp_all
qed simp

lemma shape_greets: "task_shape p evs \<Longrightarrow> sum_list (map greets evs) \<le> 1"
  by (cases p) (auto simp: began_def io_greets)

end
