(* ===== verification/Network.thy ===== *)
theory Network
  imports Timing Traffic
begin

text \<open>
  Several nodes and the TCP connections between them. Each node is the node of theory Node with
  its own libraries and its own clock; a connection joins one connection task of one node to one
  of another. What one side's task sends is what the other side's stream delivers, in order; a
  stream may also break at any time. A connection task that is not joined to another has a
  stranger at its other end, who sends what he likes.
\<close>

section \<open>Streams\<close>

text \<open>
  An endpoint is a connection task of a node. \<open>wire\<close> gives the endpoint at the other side;
  TCP's operations on the state of all streams are parameters, and the laws say that they are
  reliable and keep the order: \<open>in_transit w e\<close> is what was sent to \<open>e\<close> and not read there yet,
  and its first frame can be read.
\<close>

type_synonym endpoint = "nat \<times> nat"

locale tcp =
  fixes wire :: "endpoint \<Rightarrow> endpoint option"
    and transmit :: "'w \<Rightarrow> endpoint \<Rightarrow> bytes \<Rightarrow> 'w"
    and deliver :: "'w \<Rightarrow> endpoint \<Rightarrow> bytes \<Rightarrow> 'w option"
    and in_transit :: "'w \<Rightarrow> endpoint \<Rightarrow> bytes list"
  assumes wire_sym: "wire e = Some p \<Longrightarrow> wire p = Some e \<and> p \<noteq> e"
    and transmit_appends: "in_transit (transmit w p frame) e =
      in_transit w e @ (if wire p = Some e then [frame] else [])"
    and deliver_takes: "deliver w q frame = Some w' \<Longrightarrow>
      in_transit w e = (if q = e \<and> wire q \<noteq> None then [frame] else []) @ in_transit w' e"
    and deliver_ready: "wire e = Some p \<Longrightarrow> in_transit w e = frame # rest \<Longrightarrow> deliver w e frame \<noteq> None"
begin

lemma wire_iff: "wire e = Some p \<Longrightarrow> wire q = Some e \<longleftrightarrow> q = p"
  using wire_sym by (metis option.inject)

lemma transmits:
  "in_transit (foldl (\<lambda>w frame. transmit w q frame) w frames) e =
     in_transit w e @ (if wire q = Some e then frames else [])"
  by (induction frames arbitrary: w) (simp_all add: transmit_appends)

end

section \<open>The nodes together\<close>

record ('ch, 'b, 'r, 'iv, 'w) network =
  nodes :: "nat \<Rightarrow> ('ch, 'b, 'r, 'iv) node"
  streams :: 'w

record ('ch, 'e, 'b, 'r, 'iv, 'w) net_env =
  at_node :: "nat \<Rightarrow> ('ch, 'e, 'b, 'r, 'iv) node_env"
  tcp_transmit :: "'w \<Rightarrow> endpoint \<Rightarrow> bytes \<Rightarrow> 'w"
  tcp_deliver :: "'w \<Rightarrow> endpoint \<Rightarrow> bytes \<Rightarrow> 'w option"

text \<open>What a task has sent so far; nothing, before it is started.\<close>

definition sent_by :: "('ch, 'b, 'r, 'iv) node \<Rightarrow> nat \<Rightarrow> bytes list" where
  "sent_by n i = (if i < length (tasks n) then sent (links n ! i) else [])"

text \<open>A frame a task reads comes from its stream; what it sends goes into it.\<close>

fun net_deliver ::
    "('w \<Rightarrow> endpoint \<Rightarrow> bytes \<Rightarrow> 'w option) \<Rightarrow> nat \<Rightarrow> 'io node_event \<Rightarrow> 'w \<Rightarrow> 'w option" where
  "net_deliver recv k (OfTask i (EvRead (Some (Inr frame)))) w = recv w (k, i) frame"
| "net_deliver recv k ev w = Some w"

fun net_transmit ::
    "('w \<Rightarrow> endpoint \<Rightarrow> bytes \<Rightarrow> 'w) \<Rightarrow> nat \<Rightarrow> 'io node_event \<Rightarrow> ('ch, 'b, 'r, 'iv) node
     \<Rightarrow> ('ch, 'b, 'r, 'iv) node \<Rightarrow> 'w \<Rightarrow> 'w" where
  "net_transmit put k (OfTask i ev) n n' w =
     foldl (\<lambda>w frame. put w (k, i) frame) w (drop (length (sent_by n i)) (sent_by n' i))"
| "net_transmit put k ev n n' w = w"

fun net_next ::
    "('ch, 'e, 'b, 'r, 'iv, 'w) net_env \<Rightarrow> ('ch, 'b, 'r, 'iv, 'w) network \<Rightarrow> nat \<times> 'io node_event
     \<Rightarrow> ('ch, 'b, 'r, 'iv, 'w) network option" where
  "net_next N s (k, ev) =
     Option.bind (net_deliver (tcp_deliver N) k ev (streams s)) (\<lambda>w.
     map_option
       (\<lambda>n'. s\<lparr>nodes := (nodes s)(k := n'), streams := net_transmit (tcp_transmit N) k ev (nodes s k) n' w\<rparr>)
       (node_next (at_node N k) (nodes s k) ev))"

abbreviation net_step ::
    "('ch, 'e, 'b, 'r, 'iv, 'w) net_env \<Rightarrow> ('ch, 'b, 'r, 'iv, 'w) network \<Rightarrow> nat \<times> 'io node_event
     \<Rightarrow> ('ch, 'b, 'r, 'iv, 'w) network \<Rightarrow> bool" where
  "net_step N s ev t \<equiv> net_next N s ev = Some t"

abbreviation net_run ::
    "('ch, 'e, 'b, 'r, 'iv, 'w) net_env \<Rightarrow> ('ch, 'b, 'r, 'iv, 'w) network \<Rightarrow> (nat \<times> 'io node_event) list
     \<Rightarrow> ('ch, 'b, 'r, 'iv, 'w) network \<Rightarrow> bool" where
  "net_run N \<equiv> run (net_step N)"

interpretation net: computed_steps "net_step N" "net_next N" for N
  by unfold_locales simp

lemma net_stepE:
  assumes "net_step N s (k, ev) t"
  obtains w n' where "net_deliver (tcp_deliver N) k ev (streams s) = Some w"
    "node_step (at_node N k) (nodes s k) ev n'"
    "t = s\<lparr>nodes := (nodes s)(k := n'), streams := net_transmit (tcp_transmit N) k ev (nodes s k) n' w\<rparr>"
  using assms by (auto simp: bind_eq_Some_conv)

lemma net_stepI:
  "net_deliver (tcp_deliver N) k ev (streams s) = Some w \<Longrightarrow> node_step (at_node N k) (nodes s k) ev n' \<Longrightarrow>
   net_step N s (k, ev)
     (s\<lparr>nodes := (nodes s)(k := n'), streams := net_transmit (tcp_transmit N) k ev (nodes s k) n' w\<rparr>)"
  by simp

section \<open>One node among the others\<close>

text \<open>The events of one node, and of one endpoint; each node goes through a run of its own.\<close>

definition node_trace :: "nat \<Rightarrow> (nat \<times> 'io node_event) list \<Rightarrow> 'io node_event list" where
  "node_trace k evs = map snd (filter (\<lambda>ev. fst ev = k) evs)"

definition end_trace :: "endpoint \<Rightarrow> (nat \<times> 'io node_event) list \<Rightarrow> 'io event list" where
  "end_trace e evs = task_trace (snd e) (node_trace (fst e) evs)"

lemma node_trace_snoc [simp]:
  "node_trace k [] = []"
  "node_trace k (evs @ [(k', ev)]) = node_trace k evs @ (if k' = k then [ev] else [])"
  by (simp_all add: node_trace_def)

lemma end_trace_snoc:
  "end_trace e [] = []"
  "end_trace e (evs @ [(k, ev)]) = end_trace e evs @ (if k = fst e then of_task (snd e) ev else [])"
  by (simp_all add: end_trace_def)

lemma net_run_node:
  "net_run N s evs t \<Longrightarrow> node_run (at_node N k) (nodes s k) (node_trace k evs) (nodes t k)"
proof (induction rule: run.induct)
  case (more s evs t ev u)
  obtain k' nev where ev: "ev = (k', nev)" by (cases ev)
  from more.hyps(2) [unfolded ev] show ?case
    by (rule net_stepE) (use more.IH ev in \<open>auto intro: run.more\<close>)
qed (simp add: run.none)

section \<open>From one end to the other\<close>

definition tcp_ops ::
    "('ch, 'e, 'b, 'r, 'iv, 'w) net_env \<Rightarrow> (endpoint \<Rightarrow> endpoint option) \<Rightarrow> ('w \<Rightarrow> endpoint \<Rightarrow> bytes list) \<Rightarrow> bool" where
  "tcp_ops N wire in_transit \<longleftrightarrow> tcp wire (tcp_transmit N) (tcp_deliver N) in_transit"

lemma tcp_opsD: "tcp_ops N wire in_transit \<Longrightarrow> tcp wire (tcp_transmit N) (tcp_deliver N) in_transit"
  by (simp add: tcp_ops_def)

abbreviation sent_at :: "('ch, 'b, 'r, 'iv, 'w) network \<Rightarrow> endpoint \<Rightarrow> bytes list" where
  "sent_at s e \<equiv> sent_by (nodes s (fst e)) (snd e)"

text \<open>What a node step adds to what a task has sent.\<close>

definition newly_sent :: "('ch, 'b, 'r, 'iv) node \<Rightarrow> ('ch, 'b, 'r, 'iv) node \<Rightarrow> nat \<Rightarrow> bytes list" where
  "newly_sent n n' i = drop (length (sent_by n i)) (sent_by n' i)"

lemma step_newly_sent:
  assumes "node_step E n ev n'"
  shows "sent_by n' i = sent_by n i @ newly_sent n n' i \<and> (of_task i ev = [] \<longrightarrow> newly_sent n n' i = [])"
proof (cases "i < length (tasks n)")
  case True
  note i = True less_le_trans [OF True tasks_grow [OF assms]]
  from assms True show ?thesis
  proof (cases rule: task_of_step)
    case (own tev m m')
    with step_output [OF own(2)] i show ?thesis by (simp add: sent_by_def newly_sent_def)
  next
    case other
    with i show ?thesis by (simp add: sent_by_def newly_sent_def)
  qed
next
  case False
  with new_task [OF assms False] show ?thesis by (auto simp: sent_by_def newly_sent_def)
qed

lemma net_transmit_adds:
  assumes ops: "tcp_ops N wire in_transit" and e: "wire e = Some p"
  shows "in_transit (net_transmit (tcp_transmit N) k ev n n' w) e =
    in_transit w e @ (if k = fst p \<and> of_task (snd p) ev \<noteq> [] then newly_sent n n' (snd p) else [])"
proof (cases ev)
  case (OfTask i tev)
  with tcp.transmits [OF tcp_opsD [OF ops]] tcp.wire_iff [OF tcp_opsD [OF ops] e, of "(k, i)"]
  show ?thesis by (cases p) (simp add: newly_sent_def)
qed simp_all

lemma net_deliver_takes:
  assumes ops: "tcp_ops N wire in_transit" and e: "wire e = Some p"
    and "net_deliver (tcp_deliver N) k ev w = Some w'"
  shows "in_transit w e = (if k = fst e then reads (of_task (snd e) ev) else []) @ in_transit w' e"
proof (cases "\<exists>i frame. ev = OfTask i (EvRead (Some (Inr frame)))")
  case True
  then obtain i frame where "ev = OfTask i (EvRead (Some (Inr frame)))" by blast
  with assms(3) tcp.deliver_takes [OF tcp_opsD [OF ops], of w "(k, i)" frame w' e] e show ?thesis
    by (cases e; cases p) (auto simp: reads_def)
next
  case False
  then have "w' = w \<and> reads (of_task (snd e) ev) = []"
    using assms(3) by (cases "(tcp_deliver N, k, ev, w)" rule: net_deliver.cases) (auto simp: reads_def)
  then show ?thesis by simp
qed

text \<open>
  At every point, what one side has sent is what the other side has read, followed by what is
  still in transit.
\<close>

lemma step_stream:
  assumes ops: "tcp_ops N wire in_transit" and e: "wire e = Some p"
    and step: "net_step N s (k, ev) t"
    and before: "sent_at s p = reads (end_trace e evs) @ in_transit (streams s) e"
  shows "sent_at t p = reads (end_trace e (evs @ [(k, ev)])) @ in_transit (streams t) e"
proof -
  from step obtain w n' where deliver: "net_deliver (tcp_deliver N) k ev (streams s) = Some w"
    and node: "node_step (at_node N k) (nodes s k) ev n'"
    and t: "t = s\<lparr>nodes := (nodes s)(k := n'),
               streams := net_transmit (tcp_transmit N) k ev (nodes s k) n' w\<rparr>"
    by (rule net_stepE)
  let ?new = "if k = fst p then newly_sent (nodes s k) n' (snd p) else []"
  have "sent_at t p = sent_at s p @ ?new"
    using step_newly_sent [OF node, of "snd p"] by (auto simp: t)
  moreover have "in_transit (streams t) e = in_transit w e @ ?new"
    using net_transmit_adds [OF ops e, of k ev "nodes s k" n' w] step_newly_sent [OF node, of "snd p"]
    by (auto simp: t)
  moreover note net_deliver_takes [OF ops e deliver] before
  moreover have "reads (end_trace e (evs @ [(k, ev)])) =
      reads (end_trace e evs) @ (if k = fst e then reads (of_task (snd e) ev) else [])"
    by (simp add: end_trace_snoc reads_def)
  ultimately show ?thesis by simp
qed

lemma run_stream:
  assumes ops: "tcp_ops N wire in_transit" and e: "wire e = Some p"
  shows "net_run N s evs t \<Longrightarrow> sent_at s p = in_transit (streams s) e \<Longrightarrow>
    sent_at t p = reads (end_trace e evs) @ in_transit (streams t) e"
proof (induction rule: run.induct)
  case (more s evs t ev u)
  obtain k nev where ev: "ev = (k, nev)" by (cases ev)
  show ?case
    using step_stream [OF ops e, of t k nev u evs] more ev by simp
qed (simp add: end_trace_snoc)

text \<open>The nodes as their mains start them, with nothing in transit between them.\<close>

definition net_init ::
    "(nat \<Rightarrow> ConnectionManager) \<Rightarrow> (nat \<Rightarrow> 'b) \<Rightarrow> (nat \<Rightarrow> 'iv) \<Rightarrow> (nat \<Rightarrow> string list) \<Rightarrow> 'w
     \<Rightarrow> ('ch, 'b, 'r, 'iv, 'w) network" where
  "net_init ms bs ivs peers w =
     \<lparr>nodes = (\<lambda>k. node_init (ms k) (bs k) (ivs k) (peers k)), streams = w\<rparr>"

lemma net_init_node:
  assumes "net_run N (net_init ms bs ivs peers w) evs s"
  shows "node_run (at_node N k) (node_init (ms k) (bs k) (ivs k) (peers k)) (node_trace k evs) (nodes s k)"
  using net_run_node [OF assms, of k] by (simp add: net_init_def)

lemma net_init_stream:
  assumes "tcp_ops N wire in_transit" and "wire e = Some p" and "in_transit w e = []"
    and "net_run N (net_init ms bs ivs peers w) evs s"
  shows "sent_at s p = reads (end_trace e evs) @ in_transit (streams s) e"
  using run_stream [OF assms(1,2,4)] assms(3) by (simp add: net_init_def sent_by_def node_init_def)

text \<open>The run of a task, from the moment its connection was started.\<close>

lemma end_run:
  assumes ops: "channel_ops (task_env E) buffered is_closed limit"
    and run: "node_run E (node_init m b iv peers) evs n" and i: "i < length (tasks n)"
  obtains addr ch where "link_run (task_env E) (fresh_link addr ch) (task_trace i evs) (links n ! i)"
    "buffered ch = []" "\<not> is_closed ch" "limit ch = unat (pending E)"
proof -
  obtain addr ch where ch: "ch_new (task_env E) (pending E) = Ok ch"
    and run: "link_run (task_env E) (fresh_link addr ch) (task_trace i evs) (links n ! i)"
    using node_run_from_start [OF run, of i] i by (auto simp: node_init_def)
  from mpsc.create_fresh [OF ops [unfolded channel_ops_def] ch] run that show ?thesis by blast
qed

lemma no_task_no_trace:
  assumes "node_run E (node_init m b iv peers) evs n" and "\<not> i < length (tasks n)"
  shows "task_trace i evs = []"
  using node_run_from_start [OF assms(1), of i] assms(2) by (simp add: node_init_def)

section \<open>Nodes that understand each other\<close>

text \<open>
  The codec of one node reads back what another writes: the messages of the protocol as they
  were, and its heartbeat as some heartbeat.
\<close>

definition reads_back :: "('ch, 'e, 'b, 'r, 'iv) node_env \<Rightarrow> ('ch, 'e, 'b, 'r, 'iv) node_env \<Rightarrow> bool" where
  "reads_back E E' \<longleftrightarrow>
     list_all (\<lambda>m. case codec_ser (task_env E') m of
         Some b \<Rightarrow> codec_de (task_env E) b = Inr m | None \<Rightarrow> False) node_messages \<and>
     (case codec_de (task_env E) (beat E') of Inr (Heartbeat h) \<Rightarrow> True | _ \<Rightarrow> False)"

lemma reads_back_message:
  "reads_back E E' \<Longrightarrow> m \<in> set node_messages \<Longrightarrow> codec_ser (task_env E') m = Some b \<Longrightarrow>
   codec_de (task_env E) b = Inr m"
  by (auto simp: reads_back_def list_all_iff split: option.splits)

lemma reads_back_beat:
  "reads_back E E' \<Longrightarrow> \<exists>h. codec_de (task_env E) (beat E') = Inr (Heartbeat h)"
  by (auto simp: reads_back_def split: sum.splits Message.splits)

lemma message_accepted: "m \<in> set node_messages \<Longrightarrow> is_ok (response_for_received m)"
  by (auto simp: node_messages_def response_defs)

lemma response_in_messages:
  "response_for_received m = Ok (Some reply) \<Longrightarrow> reply \<in> set node_messages"
  by (auto simp: node_messages_def dest: response_known)

lemma allowed_accepted:
  assumes "reads_back E E'" and "allowed_frame E' b" and "reads_back E' E"
  shows "\<not> unacceptable (task_env E) b"
proof -
  obtain m where m: "codec_de (task_env E) b = Inr m" "is_ok (response_for_received m)"
  proof (cases "b = beat E'")
    case True
    obtain h where "codec_de (task_env E) (beat E') = Inr (Heartbeat h)"
      using reads_back_beat [OF assms(1)] by blast
    with True that [of "Heartbeat h"] show ?thesis by (simp add: heartbeat_response_for_received_def)
  next
    case False
    with assms(2) obtain m where "m \<in> set node_messages" "codec_ser (task_env E') m = Some b"
      by (elim allowed_frameE) simp_all
    with reads_back_message [OF assms(1)] message_accepted that show ?thesis by blast
  qed
  then obtain result where result: "response_for_received m = Ok result"
    by (cases "response_for_received m") simp_all
  show ?thesis
  proof (cases result)
    case None
    with m result show ?thesis by (simp add: unacceptable_def)
  next
    case (Some reply)
    with result response_in_messages have "reply \<in> set node_messages" by blast
    with assms(3) obtain out where "codec_ser (task_env E) reply = Some out"
      by (auto simp: reads_back_def list_all_iff split: option.splits)
    with m result Some show ?thesis by (simp add: unacceptable_def)
  qed
qed

text \<open>Of a task that starts with the node: it takes nothing but heartbeats from the channel.\<close>

lemma step_taken:
  assumes ops: "bc_ops E log receivers pos limit" and step: "node_step E n ev n'"
    and ahead: "none_ahead log pos n" and ok: "frames_ok E log n"
  shows "set (taken (of_task i ev)) \<subseteq> {beat E}"
proof (cases "i < length (tasks n)")
  case True
  with step show ?thesis
  proof (cases rule: task_of_step)
    case (own tev m m')
    have "pos (snd (tasks n ! i)) \<le> length (log (bcast n))"
      using ahead True by (simp add: none_ahead_def node_receivers_def list_all_iff)
    with own(3) have "set (taken_of tev) \<subseteq> set (log (bcast n))"
      by (cases rule: broadcast_channel.poll_cases [OF bc_opsD [OF ops]]) auto
    with own(1) ok show ?thesis by (auto simp: taken_def frames_ok_def)
  qed (simp add: taken_def)
next
  case False
  with new_task [OF step] show ?thesis by (simp add: taken_def)
qed

lemma run_taken:
  assumes ops: "bc_ops E log receivers pos limit"
  shows "node_run E s evs t \<Longrightarrow> none_ahead log pos s \<and> frames_ok E log s \<Longrightarrow>
    none_ahead log pos t \<and> frames_ok E log t \<and> set (taken (task_trace i evs)) \<subseteq> {beat E}"
proof (induction rule: run.induct)
  case (more s evs t ev u)
  then show ?case
    using step_none_ahead [OF ops more.hyps(2)] step_frames [OF ops more.hyps(2)]
      step_taken [OF ops more.hyps(2), of i] by simp
qed simp

lemma init_taken:
  assumes "bc_ops E log receivers pos limit" and "log b = []"
    and "node_run E (node_init m b iv peers) evs n"
  shows "frames_ok E log n \<and> set (taken (task_trace i evs)) \<subseteq> {beat E}"
  using run_taken [OF assms(1,3)] assms(2)
  by (simp add: none_ahead_def node_receivers_def frames_ok_def node_init_def)

text \<open>
  What one node's frames make another node answer: the greeting at most one frame, answers and
  heartbeats none.
\<close>

lemma output_elicits:
  assumes codec: "reads_back E' E" and taken: "set (taken_of ev) \<subseteq> {beat E}"
  shows "sum_list (map (elicits (task_env E')) (event_output (task_env E) addr ev)) \<le> greets ev"
proof (cases ev)
  case (EvHandshake ok)
  then show ?thesis by (auto simp: elicits_def split: outcome.splits sum.splits option.splits)
next
  case (EvSelect sel ok)
  show ?thesis
  proof (cases sel)
    case (FromBroadcast b)
    with EvSelect taken have "b = beat E" by simp
    with reads_back_beat [OF codec] EvSelect FromBroadcast show ?thesis
      by (auto simp: elicits_def heartbeat_response_for_received_def)
  next
    case (FromChannel msg)
    have quiet: "elicits (task_env E') b = 0"
      if "response_for_received m = Ok (Some reply)" "codec_ser (task_env E) reply = Some b" for m reply b
    proof -
      have "codec_de (task_env E') b = Inr reply"
        using reads_back_message [OF codec response_in_messages [OF that(1)] that(2)] .
      with response_then_silence [OF that(1)] show ?thesis by (simp add: elicits_def)
    qed
    show ?thesis
      using EvSelect FromChannel by (auto simp: quiet map_option_case split: option.splits sum.splits outcome.splits)
  qed (use EvSelect in simp)
qed simp_all

lemma trace_elicits:
  assumes codec: "reads_back E' E"
  shows "set (taken evs) \<subseteq> {beat E} \<Longrightarrow>
    sum_list (map (elicits (task_env E')) (concat (map (event_output (task_env E) addr) evs))) \<le>
      sum_list (map greets evs)"
proof (induction evs)
  case (Cons ev evs)
  then have "set (taken_of ev) \<subseteq> {beat E}" "set (taken evs) \<subseteq> {beat E}" by (auto simp: taken_def)
  with Cons.IH output_elicits [OF codec, of ev addr] show ?case by simp
qed simp

section \<open>Both ends of a connection\<close>

text \<open>
  The two ends \<open>e\<close> and \<open>p\<close> of a connection between two nodes of the network, with the libraries
  at their contracts.
\<close>

definition connected ::
    "('ch, 'e, 'b, 'r, 'iv, 'w) net_env \<Rightarrow> (endpoint \<Rightarrow> endpoint option) \<Rightarrow> ('w \<Rightarrow> endpoint \<Rightarrow> bytes list) \<Rightarrow>
     'w \<Rightarrow> endpoint \<Rightarrow> endpoint \<Rightarrow> bool" where
  "connected N wire in_transit w e p \<longleftrightarrow> tcp_ops N wire in_transit \<and> wire e = Some p \<and>
     in_transit w e = [] \<and> in_transit w p = []"

lemma connected_sym: "connected N wire in_transit w e p \<Longrightarrow> connected N wire in_transit w p e"
  unfolding connected_def by (blast dest: tcp.wire_sym [OF tcp_opsD])

lemma end_to_end:
  assumes conn: "connected N wire in_transit w e p"
    and run: "net_run N (net_init ms bs ivs peers w) evs s"
    and ops: "channel_ops (task_env (at_node N (fst e))) buffered is_closed limit"
  shows "\<exists>rest. sent_at s p = handled (end_trace e evs) @ rest \<and>
    (snd e < length (tasks (nodes s (fst e))) \<and> phase (links (nodes s (fst e)) ! snd e) \<le> Running \<longrightarrow>
       rest = buffered (chan (links (nodes s (fst e)) ! snd e)) @ in_transit (streams s) e)"
proof -
  have stream: "sent_at s p = reads (end_trace e evs) @ in_transit (streams s) e"
    using conn unfolding connected_def by (blast intro: net_init_stream [OF _ _ _ run])
  note here = net_init_node [OF run, of "fst e"]
  show ?thesis
  proof (cases "snd e < length (tasks (nodes s (fst e)))")
    case True
    from ops here True obtain addr ch where
      "link_run (task_env (at_node N (fst e))) (fresh_link addr ch) (end_trace e evs)
         (links (nodes s (fst e)) ! snd e)" "buffered ch = []"
      unfolding end_trace_def by (rule end_run)
    with run_flow [OF ops this(1)] stream show ?thesis by auto
  next
    case False
    then have "end_trace e evs = []" using no_task_no_trace [OF here] by (simp add: end_trace_def)
    with stream False show ?thesis by simp
  qed
qed

lemma handled_accepted:
  assumes conn: "connected N wire in_transit w e p"
    and codec: "reads_back (at_node N (fst e)) (at_node N (fst p))"
      "reads_back (at_node N (fst p)) (at_node N (fst e))"
    and bops: "bc_ops (at_node N (fst p)) log receivers pos lim" and start: "log (bs (fst p)) = []"
    and ops: "channel_ops (task_env (at_node N (fst e))) buffered is_closed limit"
    and run: "net_run N (net_init ms bs ivs peers w) evs s"
    and msg: "msg \<in> set (handled (end_trace e evs))"
  shows "\<not> unacceptable (task_env (at_node N (fst e))) msg"
proof -
  have "frames_ok (at_node N (fst p)) log (nodes s (fst p))"
    using init_taken [OF bops start net_init_node [OF run]] by blast
  then have "list_all (allowed_frame (at_node N (fst p))) (sent_at s p)"
    by (simp add: frames_ok_def sent_by_def list_all_length)
  moreover have "msg \<in> set (sent_at s p)" using end_to_end [OF conn run ops] msg by auto
  ultimately show ?thesis using allowed_accepted [OF codec(1) _ codec(2)] by (simp add: list_all_iff)
qed

lemma ends_with_cause:
  assumes ops: "channel_ops (task_env E) buffered is_closed limit"
    and run: "node_run E (node_init m b iv peers) evs n" and i: "i < length (tasks n)"
    and over: "phase (links n ! i) \<in> {Draining, WriterClosed, Finished}"
  shows "gave_cause (task_env E) (unat (pending E)) (task_trace i evs)"
proof -
  from ops run i obtain addr ch where
    run: "link_run (task_env E) (fresh_link addr ch) (task_trace i evs) (links n ! i)"
    and "buffered ch = []" "\<not> is_closed ch" "limit ch = unat (pending E)"
    by (rule end_run)
  with run_ends [OF ops _ _ _ run over] show ?thesis by simp
qed

lemma sent_bound:
  assumes ops: "channel_ops (task_env E) buffered is_closed limit"
    and run: "node_run E (node_init m b iv peers) evs n"
  shows "length (sent_by n i) \<le>
    1 + sum_list (map (elicits (task_env E)) (handled (task_trace i evs))) + length (taken (task_trace i evs))"
proof (cases "i < length (tasks n)")
  case True
  from ops run True obtain addr ch where
    link: "link_run (task_env E) (fresh_link addr ch) (task_trace i evs) (links n ! i)"
    by (rule end_run)
  from shape_greets [OF run_shape [OF link]] have "sum_list (map greets (task_trace i evs)) \<le> 1" by simp
  with output_length [of "task_env E" addr "task_trace i evs"] run_output [OF link] True show ?thesis
    by (simp add: sent_by_def)
qed (simp add: sent_by_def)

lemma sent_elicits:
  assumes ops: "channel_ops (task_env E) buffered is_closed limit"
    and bops: "bc_ops E log receivers pos lim" and start: "log b = []"
    and codec: "reads_back E' E"
    and run: "node_run E (node_init m b iv peers) evs n"
  shows "sum_list (map (elicits (task_env E')) (sent_by n i)) \<le> 1"
proof (cases "i < length (tasks n)")
  case True
  from ops run True obtain addr ch where
    link: "link_run (task_env E) (fresh_link addr ch) (task_trace i evs) (links n ! i)"
    by (rule end_run)
  from shape_greets [OF run_shape [OF link]] have "sum_list (map greets (task_trace i evs)) \<le> 1" by simp
  moreover have "set (taken (task_trace i evs)) \<subseteq> {beat E}"
    using init_taken [OF bops start run] by blast
  moreover have "sent_by n i = concat (map (event_output (task_env E) addr) (task_trace i evs))"
    using run_output [OF link] True by (simp add: sent_by_def)
  ultimately show ?thesis using trace_elicits [OF codec, of "task_trace i evs" addr] by simp
qed (simp add: sent_by_def)

text \<open>A connection that ends by itself was flooded; and how little it takes to say.\<close>

lemma lost_by_flood:
  assumes conn: "connected N wire in_transit w e p"
    and codec: "reads_back (at_node N (fst e)) (at_node N (fst p))"
      "reads_back (at_node N (fst p)) (at_node N (fst e))"
    and bops: "bc_ops (at_node N (fst p)) log receivers pos lim" and start: "log (bs (fst p)) = []"
    and ops: "channel_ops (task_env (at_node N (fst e))) buffered is_closed limit"
    and run: "net_run N (net_init ms bs ivs peers w) evs s"
    and i: "snd e < length (tasks (nodes s (fst e)))"
    and over: "phase (links (nodes s (fst e)) ! snd e) \<in> {Draining, WriterClosed, Finished}"
  shows "(\<exists>ev \<in> set (end_trace e evs). breaks_off ev) \<or>
    length (handled (end_trace e evs)) + unat (pending (at_node N (fst e))) < length (reads (end_trace e evs))"
proof -
  have "gave_cause (task_env (at_node N (fst e))) (unat (pending (at_node N (fst e)))) (end_trace e evs)"
    using ends_with_cause [OF ops net_init_node [OF run] i over] by (simp add: end_trace_def)
  with handled_accepted [OF conn codec bops start ops run] show ?thesis by (auto simp: gave_cause_def)
qed

lemma traffic_bound:
  assumes conn: "connected N wire in_transit w e p"
    and codec: "reads_back (at_node N (fst p)) (at_node N (fst e))"
    and bops: "bc_ops (at_node N (fst e)) log receivers pos lim" and start: "log (bs (fst e)) = []"
    and ops: "channel_ops (task_env (at_node N (fst e))) buffered is_closed limit"
      "channel_ops (task_env (at_node N (fst p))) buffered' is_closed' limit'"
    and run: "net_run N (net_init ms bs ivs peers w) evs s"
  shows "length (sent_at s p) \<le> 2 + length (taken (end_trace p evs)) \<and>
    length (reads (end_trace e evs)) \<le> 2 + length (taken (end_trace p evs))"
proof -
  obtain rest where "sent_at s e = handled (end_trace p evs) @ rest"
    using end_to_end [OF connected_sym [OF conn] run ops(2)] by blast
  then have "sum_list (map (elicits (task_env (at_node N (fst p)))) (handled (end_trace p evs))) \<le> 1"
    using sent_elicits [OF ops(1) bops start codec net_init_node [OF run], of "snd e"] by simp
  with sent_bound [OF ops(2) net_init_node [OF run], of "snd p"]
  have bound: "length (sent_at s p) \<le> 2 + length (taken (end_trace p evs))"
    by (simp add: end_trace_def)
  moreover have "length (reads (end_trace e evs)) \<le> length (sent_at s p)"
    using conn net_init_stream [OF _ _ _ run, of wire in_transit e p] by (simp add: connected_def)
  ultimately show ?thesis by linarith
qed

section \<open>A concrete network\<close>

text \<open>
  Streams as lists. Node 0 listens, node 1 dials it: connection task 0 of the one is joined to
  connection task 0 of the other; whoever else connects is a stranger.
\<close>

definition sample_wire :: "endpoint \<Rightarrow> endpoint option" where
  "sample_wire e = (if e = (0, 0) then Some (1, 0) else if e = (1, 0) then Some (0, 0) else None)"

definition list_transmit :: "(endpoint \<Rightarrow> bytes list) \<Rightarrow> endpoint \<Rightarrow> bytes \<Rightarrow> endpoint \<Rightarrow> bytes list" where
  "list_transmit w p frame = (case sample_wire p of Some e \<Rightarrow> w(e := w e @ [frame]) | None \<Rightarrow> w)"

definition list_deliver :: "(endpoint \<Rightarrow> bytes list) \<Rightarrow> endpoint \<Rightarrow> bytes \<Rightarrow> (endpoint \<Rightarrow> bytes list) option" where
  "list_deliver w e frame =
     (if sample_wire e = None then Some w
      else case w e of
        b # rest \<Rightarrow> if b = frame then Some (w(e := rest)) else None
      | [] \<Rightarrow> None)"

interpretation streams: tcp sample_wire list_transmit list_deliver "\<lambda>w. w"
  by unfold_locales
    (auto simp: sample_wire_def list_transmit_def list_deliver_def split: if_splits list.splits option.splits)

definition sample_net_env :: "(queue, string, sent_log, nat, Interval, endpoint \<Rightarrow> bytes list) net_env" where
  "sample_net_env =
     \<lparr>at_node = (\<lambda>k. sample_node_env), tcp_transmit = list_transmit, tcp_deliver = list_deliver\<rparr>"

definition sample_net :: "(queue, sent_log, nat, Interval, endpoint \<Rightarrow> bytes list) network" where
  "sample_net =
     net_init (\<lambda>k. manager_new 3) (\<lambda>k. sample_bcast) (\<lambda>k. \<lparr>due_at = 0, every = 1\<rparr>)
       (\<lambda>k. if k = 1 then [''localhost:8080''] else []) (\<lambda>e. [])"

definition rendezvous :: "(nat \<times> unit node_event) list" where
  "rendezvous =
     [(0, ListenBind True), (0, NotifyOne), (1, Dial), (1, DialDone 0 True),
      (0, Accept (Some (V4 127 0 0 1 50000))), (0, OfTask 0 (EvInsert \<lparr>created_at = 0\<rparr>)),
      (1, OfTask 0 (EvInsert \<lparr>created_at = 0\<rparr>)), (0, OfTask 0 (EvHandshake True)),
      (1, OfTask 0 (EvHandshake True)), (1, OfTask 0 (EvRead (Some (Inr hello_frame)))),
      (1, OfTask 0 (EvSelect (FromChannel hello_frame) True)),
      (0, OfTask 0 (EvRead (Some (Inr hello_frame)))),
      (0, OfTask 0 (EvSelect (FromChannel hello_frame) True)),
      (0, OfTask 0 (EvRead (Some (Inr oleh_frame)))),
      (0, OfTask 0 (EvSelect (FromChannel oleh_frame) True))]"

definition met_net :: "(queue, sent_log, nat, Interval, endpoint \<Rightarrow> bytes list) network" where
  "met_net = the (run_fun (net_next sample_net_env) rendezvous sample_net)"

lemmas sample_net_defs =
  sample_net_env_def sample_net_def net_init_def sample_node_defs sent_by_def list_transmit_def
  list_deliver_def sample_wire_def handler_iteration_def handle_received_def from_bytes_def
  response_defs sample_codec_defs word_le_nat_alt

lemma rendezvous_computes:
  "\<exists>s. run_fun (net_next sample_net_env) rendezvous sample_net = Some s \<and>
     tasks (nodes s 0) = [(\<lparr>peer_addr = V4 127 0 0 1 50000, phase = Running, chan = queue_new 2,
       sent = [hello_frame, oleh_frame], listens = True\<rparr>, 0)] \<and>
     tasks (nodes s 1) = [(\<lparr>peer_addr = V4 127 0 0 1 8080, phase = Running, chan = queue_new 2,
       sent = [hello_frame, oleh_frame], listens = True\<rparr>, 0)] \<and>
     num_connections (manager (nodes s 0)) = 1 \<and> num_connections (manager (nodes s 1)) = 1 \<and>
     streams s (0, 0) = [] \<and> streams s (1, 0) = [oleh_frame] \<and> main_running (nodes s 1)"
  by (simp add: rendezvous_def sample_net_defs)

text \<open>Afterwards node 1 loses its connection.\<close>

definition lost_connection :: "(nat \<times> unit node_event) list" where
  "lost_connection = rendezvous @ [(1, OfTask 0 (EvRead None))]"

lemma lost_connection_computes:
  "\<exists>s. run_fun (net_next sample_net_env) lost_connection sample_net = Some s \<and>
     map phase (links (nodes s 1)) = [Draining]"
  by (simp add: lost_connection_def rendezvous_def sample_net_defs)

lemma met_net_facts:
  "net_run sample_net_env sample_net rendezvous met_net"
  "tasks (nodes met_net 0) = [(\<lparr>peer_addr = V4 127 0 0 1 50000, phase = Running, chan = queue_new 2,
     sent = [hello_frame, oleh_frame], listens = True\<rparr>, 0)]"
  "tasks (nodes met_net 1) = [(\<lparr>peer_addr = V4 127 0 0 1 8080, phase = Running, chan = queue_new 2,
     sent = [hello_frame, oleh_frame], listens = True\<rparr>, 0)]"
  "num_connections (manager (nodes met_net 0)) = 1" "num_connections (manager (nodes met_net 1)) = 1"
  "streams met_net (0, 0) = []" "streams met_net (1, 0) = [oleh_frame]" "main_running (nodes met_net 1)"
  using rendezvous_computes by (auto simp: net.run_iff met_net_def)

lemma sample_connected:
  "connected sample_net_env sample_wire (\<lambda>w. w) (\<lambda>e. []) (0, 0) (1, 0)"
  by (simp add: connected_def tcp_ops_def sample_net_env_def streams.tcp_axioms)
    (simp add: sample_wire_def)

lemma sample_reads_back: "reads_back sample_node_env sample_node_env"
  by (simp add: reads_back_def node_messages_def sample_node_env_def sample_env_def sample_codec_defs)

lemma sample_channel_ops: "channel_ops (task_env (at_node sample_net_env k)) items shut size_limit"
  using sample_ops by (simp add: sample_net_env_def sample_node_env_def)

section \<open>Properties\<close>

text \<open>
  C5. From one node to the other, through the sender's task, TCP, the reader's loop, its channel and
  its handler, and whatever all other tasks of all nodes do: what a connection task has handled is
  always a prefix of what the task at the other end has sent, and while it runs the rest is exactly
  what its channel holds followed by what is in transit. Nothing is lost, repeated or reordered.
\<close>

theorem frames_cross_in_order:
  assumes "connected N wire in_transit w e p"
    and "net_run N (net_init ms bs ivs peers w) evs s"
    and "channel_ops (task_env (at_node N (fst e))) buffered is_closed limit"
  shows "\<exists>rest. sent_at s p = handled (end_trace e evs) @ rest \<and>
    (snd e < length (tasks (nodes s (fst e))) \<and> phase (links (nodes s (fst e)) ! snd e) \<le> Running \<longrightarrow>
       rest = buffered (chan (links (nodes s (fst e)) ! snd e)) @ in_transit (streams s) e)"
  using assms by (rule end_to_end)

lemma frames_cross_in_order_witness:
  "\<exists>rest. [hello_frame, oleh_frame] = handled (end_trace (1, 0) rendezvous) @ rest \<and> rest = [oleh_frame]"
  using frames_cross_in_order [OF connected_sym [OF sample_connected]
      met_net_facts(1) [unfolded sample_net_def] sample_channel_ops]
  by (simp add: met_net_facts [unfolded One_nat_def] sent_by_def queue_new_def less_eq_phase_def)

text \<open>
  C9. Two nodes that run this code never drop each other for what they say: a connection task whose
  other end is a task of a node whose messages it can read leaves its loops only because its
  stream broke or ended, because a send failed, or because its channel was full; never because a
  frame did not parse or the protocol rejected it. So a full channel, of frames it read and had
  not handled yet, is the only way such a connection ends by itself.
\<close>

theorem honest_connection_survives:
  assumes conn: "connected N wire in_transit w e p"
    and codec: "reads_back (at_node N (fst e)) (at_node N (fst p))"
      "reads_back (at_node N (fst p)) (at_node N (fst e))"
    and bops: "bc_ops (at_node N (fst p)) log receivers pos lim" and start: "log (bs (fst p)) = []"
    and ops: "channel_ops (task_env (at_node N (fst e))) buffered is_closed limit"
    and run: "net_run N (net_init ms bs ivs peers w) evs s"
    and i: "snd e < length (tasks (nodes s (fst e)))"
    and over: "phase (links (nodes s (fst e)) ! snd e) \<in> {Draining, WriterClosed, Finished}"
  shows "(\<exists>ev \<in> set (end_trace e evs). breaks_off ev) \<or>
    length (handled (end_trace e evs)) + unat (pending (at_node N (fst e))) < length (reads (end_trace e evs))"
  using assms by (rule lost_by_flood)

lemma honest_connection_survives_witness:
  "\<exists>ev \<in> set (end_trace (1, 0) lost_connection). breaks_off ev"
proof -
  obtain s where run: "net_run sample_net_env sample_net lost_connection s"
    and phase: "map phase (links (nodes s 1)) = [Draining]"
    using lost_connection_computes by (auto simp: net.run_iff)
  have trace: "length (reads (end_trace (1, 0) lost_connection)) = 1"
    by (simp add: lost_connection_def rendezvous_def end_trace_def node_trace_def task_trace_def reads_def)
  have env: "at_node sample_net_env k = sample_node_env" for k by (simp add: sample_net_env_def)
  have "tasks (nodes s 1) \<noteq> []" "phase (links (nodes s 1) ! 0) = Draining"
    using phase by auto
  with honest_connection_survives [OF connected_sym [OF sample_connected], unfolded env,
      OF sample_reads_back sample_reads_back sample_bc_ops, where buffered = items and is_closed = shut
        and limit = size_limit, OF _ _ run [unfolded sample_net_def]] trace
  show ?thesis
    using sample_channel_ops [unfolded env] by (simp add: sample_bcast_def sample_node_env_def)
qed

text \<open>
  C20. And there is little they say: besides the heartbeats it forwards, a connection task sends to
  another node at most two frames in its whole life, its greeting and one answer, however long the
  nodes run. So it is only by heartbeats that nodes can fill each other's channels.
\<close>

theorem honest_traffic_bounded:
  assumes conn: "connected N wire in_transit w e p"
    and codec: "reads_back (at_node N (fst p)) (at_node N (fst e))"
    and bops: "bc_ops (at_node N (fst e)) log receivers pos lim" and start: "log (bs (fst e)) = []"
    and ops: "channel_ops (task_env (at_node N (fst e))) buffered is_closed limit"
      "channel_ops (task_env (at_node N (fst p))) buffered' is_closed' limit'"
    and run: "net_run N (net_init ms bs ivs peers w) evs s"
  shows "length (sent_at s p) \<le> 2 + length (taken (end_trace p evs)) \<and>
    length (reads (end_trace e evs)) \<le> 2 + length (taken (end_trace p evs))"
  using assms by (rule traffic_bound)

lemma honest_traffic_bounded_witness:
  "length (sent_at met_net (0, 0)) \<le> 2 + length (taken (end_trace (0, 0) rendezvous))"
proof -
  have env: "at_node sample_net_env k = sample_node_env" for k by (simp add: sample_net_env_def)
  note ops = sample_channel_ops [unfolded env]
  show ?thesis
    by (rule conjunct1, rule honest_traffic_bounded [OF connected_sym [OF sample_connected], unfolded env,
        OF sample_reads_back sample_bc_ops _ ops ops met_net_facts(1) [unfolded sample_net_def]])
      (simp add: sample_bcast_def)
qed

end
