(* ===== verification/Progress.thy ===== *)
theory Progress
  imports Network
begin

text \<open>
  What can still happen on a connection between two nodes: every frame one end has sent can be
  read and handled by the other; and how long such a connection lasts at least, by the bounds on
  what nodes send and on how fast their hearts beat.
\<close>

section \<open>One task moving on\<close>

text \<open>A connection task of a node that is inside its \<open>select!\<close>, with its channel open.\<close>

definition serving :: "('ch \<Rightarrow> bool) \<Rightarrow> ('ch, 'b, 'r, 'iv) node \<Rightarrow> nat \<Rightarrow> bool" where
  "serving is_closed n i \<longleftrightarrow> main_running n \<and> i < length (tasks n) \<and>
     phase (links n ! i) = Running \<and> \<not> is_closed (chan (links n ! i))"

lemma task_event_running:
  assumes "serving is_closed n i" and "task_next (task_env E) (manager n, links n ! i) ev = Some (m', l')"
    and "poll_broadcast (bc_recv E (bcast n) (snd (tasks n ! i))) (snd (tasks n ! i)) ev = Some (snd (tasks n ! i))"
    and "phase l' = Running"
  shows "node_next E n (OfTask i ev) =
    Some (n\<lparr>manager := m', tasks := (tasks n)[i := (l', snd (tasks n ! i))]\<rparr>)"
  using assms
  by (cases "tasks n ! i")
    (simp add: serving_def node_next_def task_event_def holds_receiver_def)

lemma can_read:
  assumes ops: "channel_ops (task_env E) buffered is_closed limit"
    and on: "serving is_closed n i"
    and room: "length (buffered (chan (links n ! i))) < limit (chan (links n ! i))"
  obtains n' where "node_step E n (OfTask i (EvRead (Some (Inr frame)))) n'" "serving is_closed n' i"
    "buffered (chan (links n' ! i)) = buffered (chan (links n ! i)) @ [frame]"
    "limit (chan (links n' ! i)) = limit (chan (links n ! i))"
proof -
  let ?l = "links n ! i"
  have i: "i < length (tasks n)" "phase ?l = Running" "\<not> is_closed (chan ?l)" "main_running n"
    using on by (auto simp: serving_def)
  obtain ch' where send: "ch_try_send (task_env E) (chan ?l) frame = (Inr (), ch')"
    and ch': "buffered ch' = buffered (chan ?l) @ [frame]" "\<not> is_closed ch'" "limit ch' = limit (chan ?l)"
    using mpsc_channel.try_send_room [OF channel_opsD [OF ops] i(3) room] by blast
  let ?l' = "?l\<lparr>chan := ch'\<rparr>"
  have "task_next (task_env E) (manager n, ?l) (EvRead (Some (Inr frame))) = Some (manager n, ?l')"
    using i send by (simp add: read_iteration_def)
  from task_event_running [OF on this] i have
    "node_step E n (OfTask i (EvRead (Some (Inr frame))))
       (n\<lparr>manager := manager n, tasks := (tasks n)[i := (?l', snd (tasks n ! i))]\<rparr>)"
    by (cases "bc_recv E (bcast n) (snd (tasks n ! i))") simp
  then show ?thesis
    by (rule that) (use i ch' in \<open>simp_all add: serving_def main_running_def\<close>)
qed

lemma acceptable_output:
  "\<not> unacceptable E msg \<Longrightarrow>
   \<exists>out. handler_iteration (codec_ser E) (codec_de E) (record_send True) (FromChannel msg) w = (Continue, w @ out)"
  using handler_iteration_good [of "codec_ser E" "codec_de E" "FromChannel msg"]
  by (auto simp: unacceptable_def simp del: round_output.simps)

lemma can_handle:
  assumes ops: "channel_ops (task_env E) buffered is_closed limit"
    and on: "serving is_closed n i"
    and first: "buffered (chan (links n ! i)) = msg # rest" and ok: "\<not> unacceptable (task_env E) msg"
  obtains n' where "node_step E n (OfTask i (EvSelect (FromChannel msg) True)) n'" "serving is_closed n' i"
    "buffered (chan (links n' ! i)) = rest" "limit (chan (links n' ! i)) = limit (chan (links n ! i))"
proof -
  let ?l = "links n ! i"
  have i: "i < length (tasks n)" "phase ?l = Running" "\<not> is_closed (chan ?l)" "main_running n"
    using on by (auto simp: serving_def)
  obtain ch' where recv: "ch_recv (task_env E) (chan ?l) = (Ready (Some msg), ch')"
    and ch': "buffered ch' = rest" "\<not> is_closed ch'" "limit ch' = limit (chan ?l)"
    using mpsc_channel.recv_message [OF channel_opsD [OF ops] first] i(3) by auto
  obtain out where handle: "handler_iteration (codec_ser (task_env E)) (codec_de (task_env E))
      (record_send True) (FromChannel msg) (sent ?l) = (Continue, sent ?l @ out)"
    using acceptable_output [OF ok] by blast
  let ?l' = "?l\<lparr>chan := ch', sent := sent ?l @ out, listens := True\<rparr>"
  have "task_next (task_env E) (manager n, ?l) (EvSelect (FromChannel msg) True) = Some (manager n, ?l')"
    using i recv handle by simp
  from task_event_running [OF on this] i have
    "node_step E n (OfTask i (EvSelect (FromChannel msg) True))
       (n\<lparr>manager := manager n, tasks := (tasks n)[i := (?l', snd (tasks n ! i))]\<rparr>)"
    by (cases "bc_recv E (bcast n) (snd (tasks n ! i))") simp
  then show ?thesis
    by (rule that) (use i ch' in \<open>simp_all add: serving_def main_running_def\<close>)
qed

section \<open>A connection that is emptied\<close>

abbreviation chan_at :: "('ch, 'b, 'r, 'iv, 'w) network \<Rightarrow> endpoint \<Rightarrow> 'ch" where
  "chan_at s e \<equiv> chan (links (nodes s (fst e)) ! snd e)"

text \<open>The two moves of an endpoint in the network: reading the next frame, handling the next message.\<close>

lemma own_stream:
  assumes tcp: "tcp_ops N wire in_transit" and e: "wire e = Some p"
  shows "in_transit (net_transmit (tcp_transmit N) (fst e) (OfTask (snd e) ev) n n' w) e = in_transit w e"
proof -
  have "p \<noteq> e" using tcp.wire_sym [OF tcp_opsD [OF tcp] e] by blast
  then show ?thesis using net_transmit_adds [OF tcp e, of "fst e" "OfTask (snd e) ev" n n' w]
    by (cases e; cases p) (auto simp del: net_transmit.simps)
qed

lemma net_read:
  assumes tcp: "tcp_ops N wire in_transit" and e: "wire e = Some p"
    and ops: "channel_ops (task_env (at_node N (fst e))) buffered is_closed limit"
    and on: "serving is_closed (nodes s (fst e)) (snd e)"
    and room: "length (buffered (chan_at s e)) < limit (chan_at s e)"
    and frame: "in_transit (streams s) e = frame # rest"
  obtains s' where "net_step N s (fst e, OfTask (snd e) (EvRead (Some (Inr frame))) :: 'io node_event) s'"
    "serving is_closed (nodes s' (fst e)) (snd e)" "in_transit (streams s') e = rest"
    "buffered (chan_at s' e) = buffered (chan_at s e) @ [frame]"
    "limit (chan_at s' e) = limit (chan_at s e)"
proof -
  let ?ev = "OfTask (snd e) (EvRead (Some (Inr frame))) :: 'io node_event"
  obtain w where deliver: "tcp_deliver N (streams s) e frame = Some w"
    using tcp.deliver_ready [OF tcp_opsD [OF tcp] e frame] by blast
  then have deliver: "net_deliver (tcp_deliver N) (fst e) ?ev (streams s) = Some w" by simp
  have w: "in_transit w e = rest"
    using net_deliver_takes [OF tcp e deliver] frame by (simp add: reads_def)
  obtain n' where node: "node_step (at_node N (fst e)) (nodes s (fst e)) ?ev n'"
    and n': "serving is_closed n' (snd e)"
      "buffered (chan (links n' ! snd e)) = buffered (chan_at s e) @ [frame]"
      "limit (chan (links n' ! snd e)) = limit (chan_at s e)"
    using can_read [OF ops on room] by metis
  show ?thesis
    by (rule that [OF net_stepI [OF deliver node]])
      (simp_all add: n' w own_stream [OF tcp e] del: net_transmit.simps)
qed

lemma net_handle:
  assumes tcp: "tcp_ops N wire in_transit" and e: "wire e = Some p"
    and ops: "channel_ops (task_env (at_node N (fst e))) buffered is_closed limit"
    and on: "serving is_closed (nodes s (fst e)) (snd e)"
    and first: "buffered (chan_at s e) = msg # rest"
    and ok: "\<not> unacceptable (task_env (at_node N (fst e))) msg"
  obtains s' where "net_step N s (fst e, OfTask (snd e) (EvSelect (FromChannel msg) True) :: 'io node_event) s'"
    "serving is_closed (nodes s' (fst e)) (snd e)" "in_transit (streams s') e = in_transit (streams s) e"
    "buffered (chan_at s' e) = rest"
    "limit (chan_at s' e) = limit (chan_at s e)"
proof -
  let ?ev = "OfTask (snd e) (EvSelect (FromChannel msg) True) :: 'io node_event"
  have deliver: "net_deliver (tcp_deliver N) (fst e) ?ev (streams s) = Some (streams s)" by simp
  obtain n' where node: "node_step (at_node N (fst e)) (nodes s (fst e)) ?ev n'"
    and n': "serving is_closed n' (snd e)" "buffered (chan (links n' ! snd e)) = rest"
      "limit (chan (links n' ! snd e)) = limit (chan_at s e)"
    using can_handle [OF ops on first ok] by metis
  show ?thesis
    by (rule that [OF net_stepI [OF deliver node]])
      (simp_all add: n' own_stream [OF tcp e] del: net_transmit.simps)
qed

text \<open>Alternating them, the endpoint handles all that is in its channel and in transit to it.\<close>

fun own_event :: "endpoint \<Rightarrow> nat \<times> 'io node_event \<Rightarrow> bool" where
  "own_event e (k, OfTask i ev) = (e = (k, i))"
| "own_event e (k, ev) = False"

lemma own_event_task: "own_event e (fst e, OfTask (snd e) ev)"
  by simp

lemma handled_Cons:
  "handled (end_trace e ((fst e, OfTask (snd e) ev) # evs)) = handled_of ev @ handled (end_trace e evs)"
  by (simp add: handled_def end_trace_def node_trace_def task_trace_def)

lemma empties:
  assumes tcp: "tcp_ops N wire in_transit" and e: "wire e = Some p"
    and ops: "channel_ops (task_env (at_node N (fst e))) buffered is_closed limit"
  shows "serving is_closed (nodes s (fst e)) (snd e) \<Longrightarrow> 0 < limit (chan_at s e) \<Longrightarrow>
    \<forall>msg \<in> set (buffered (chan_at s e) @ in_transit (streams s) e). \<not> unacceptable (task_env (at_node N (fst e))) msg \<Longrightarrow>
    \<exists>evs :: (nat \<times> 'io node_event) list. \<exists>s'. net_run N s evs s' \<and> list_all (own_event e) evs \<and>
      serving is_closed (nodes s' (fst e)) (snd e) \<and>
      handled (end_trace e evs) = buffered (chan_at s e) @ in_transit (streams s) e"
proof (induction "2 * length (in_transit (streams s) e) + length (buffered (chan_at s e))"
    arbitrary: s rule: less_induct)
  case less
  have go: ?case
    if step: "net_step N s (fst e, OfTask (snd e) ev :: 'io node_event) s1"
      and on: "serving is_closed (nodes s1 (fst e)) (snd e)"
      and todo: "buffered (chan_at s e) @ in_transit (streams s) e =
        handled_of ev @ buffered (chan_at s1 e) @ in_transit (streams s1) e"
      and limit: "limit (chan_at s1 e) = limit (chan_at s e)"
      and smaller: "2 * length (in_transit (streams s1) e) + length (buffered (chan_at s1 e)) <
        2 * length (in_transit (streams s) e) + length (buffered (chan_at s e))" for ev s1
  proof -
    have "\<forall>msg \<in> set (buffered (chan_at s1 e) @ in_transit (streams s1) e).
        \<not> unacceptable (task_env (at_node N (fst e))) msg"
      using less.prems(3) unfolding todo by auto
    with less.hyps [OF smaller on] less.prems(2) limit obtain evs :: "(nat \<times> 'io node_event) list" and s'
      where "net_run N s1 evs s'" "list_all (own_event e) evs" "serving is_closed (nodes s' (fst e)) (snd e)"
        "handled (end_trace e evs) = buffered (chan_at s1 e) @ in_transit (streams s1) e" by auto
    with run_Cons [where step = "net_step N", OF step] todo show ?thesis
      by (intro exI [of _ "(fst e, OfTask (snd e) ev) # evs"] exI [of _ s'])
        (simp add: handled_Cons own_event_task del: net_next.simps own_event.simps)
  qed
  show ?case
  proof (cases "buffered (chan_at s e)")
    case (Cons msg rest)
    with less.prems(3) have ok: "\<not> unacceptable (task_env (at_node N (fst e))) msg" by simp
    show ?thesis
      by (rule net_handle [OF tcp e ops less.prems(1) Cons ok], erule (1) go) (simp_all add: Cons)
  next
    case Nil
    show ?thesis
    proof (cases "in_transit (streams s) e")
      case empty: Nil
      with Nil less.prems(1) show ?thesis
        by (intro exI [of _ "[]"] exI [of _ s]) (simp add: run.none end_trace_snoc)
    next
      case (Cons frame rest)
      have room: "length (buffered (chan_at s e)) < limit (chan_at s e)" using Nil less.prems(2) by simp
      show ?thesis
        by (rule net_read [OF tcp e ops less.prems(1) room Cons], erule (1) go) (simp_all add: Nil Cons)
    qed
  qed
qed

section \<open>How long a connection lasts\<close>

text \<open>A task has taken at most as many broadcasts as its receiver has passed.\<close>

lemma run_taken_pos:
  assumes ops: "bc_ops E log receivers pos lim"
  shows "node_run E s evs t \<Longrightarrow> none_ahead log pos s \<Longrightarrow> tasks s = [] \<Longrightarrow>
    none_ahead log pos t \<and>
    (i < length (tasks t) \<longrightarrow> length (taken (task_trace i evs)) \<le> pos (snd (tasks t ! i)))"
proof (induction rule: run.induct)
  case (more s evs t ev u)
  note step = more.hyps(2)
  have ahead: "none_ahead log pos t" using more by blast
  show ?case
  proof (cases "i < length (tasks t)")
    case True
    then have le: "pos (snd (tasks t ! i)) \<le> length (log (bcast t))"
      using ahead by (simp add: none_ahead_def node_receivers_def list_all_iff)
    from step True have "length (taken (of_task i ev)) + pos (snd (tasks t ! i)) \<le> pos (snd (tasks u ! i))"
    proof (cases rule: task_of_step)
      case (own tev m m')
      from own(3) le show ?thesis
        by (cases rule: broadcast_channel.poll_cases [OF bc_opsD [OF ops]])
          (use own(1) in \<open>auto simp: taken_def\<close>)
    next
      case other
      then show ?thesis by (simp add: taken_def)
    qed
    with more True step_none_ahead [OF ops step ahead] show ?thesis by simp
  next
    case False
    with new_task [OF step] node_run_from_start [OF more.hyps(1), of i] more.prems(2)
      step_none_ahead [OF ops step ahead]
    show ?thesis by simp
  qed
qed simp

lemma taken_bounded:
  assumes ops: "bc_ops E log receivers pos lim" and start: "log b = []"
    and run: "node_run E (node_init m b iv peers) evs n"
  shows "length (taken (task_trace i evs)) \<le> length (log (bcast n))"
proof (cases "i < length (tasks n)")
  case True
  have "none_ahead log pos (node_init m b iv peers)" "tasks (node_init m b iv peers) = []"
    by (simp_all add: none_ahead_def node_receivers_def node_init_def)
  from run_taken_pos [OF ops run this, of i] True show ?thesis
    by (auto simp: none_ahead_def node_receivers_def list_all_iff dest: bspec [of _ _ "snd (tasks n ! i)"])
next
  case False
  with no_task_no_trace [OF run] show ?thesis by simp
qed

text \<open>The channel of a task that runs is open and has room for something.\<close>

lemma running_channel:
  assumes ops: "channel_ops (task_env E) buffered is_closed limit"
    and run: "node_run E (node_init m b iv peers) evs n" and i: "i < length (tasks n)"
    and on: "phase (links n ! i) = Running"
  shows "\<not> is_closed (chan (links n ! i)) \<and> 0 < limit (chan (links n ! i))"
proof -
  obtain addr ch where ch: "ch_new (task_env E) (pending E) = Ok ch"
    and link: "link_run (task_env E) (fresh_link addr ch) (task_trace i evs) (links n ! i)"
    using node_run_from_start [OF run, of i] i by (auto simp: node_init_def)
  from mpsc.create_cases [OF ops [unfolded channel_ops_def] ch] have
    fresh: "pending E \<noteq> 0" "buffered ch = []" "\<not> is_closed ch" "limit ch = unat (pending E)" by auto
  have "0 < unat (pending E)" using fresh(1) by (simp add: unat_gt_0)
  with link_open [OF ops link] run_limit [OF ops link] fresh on show ?thesis
    by (simp add: chan_open_def)
qed

section \<open>Properties\<close>

text \<open>
  C16. Nothing on the way can get stuck: at every point of every run of the network, as long as an
  endpoint whose other end it understands is in its loops and its main runs, what the other end has sent so far can
  all still be handled, by reads and rounds of that endpoint alone, with no step of any other
  task; the endpoint is in its loops afterwards, and then has handled exactly what was sent to it.
\<close>

theorem sent_frames_can_be_handled:
  fixes evs :: "(nat \<times> 'io node_event) list"
  assumes conn: "connected N wire in_transit w e p"
    and codec: "reads_back (at_node N (fst e)) (at_node N (fst p))"
      "reads_back (at_node N (fst p)) (at_node N (fst e))"
    and bops: "bc_ops (at_node N (fst p)) log receivers pos lim" and start: "log (bs (fst p)) = []"
    and ops: "channel_ops (task_env (at_node N (fst e))) buffered is_closed limit"
    and run: "net_run N (net_init ms bs ivs peers w) evs s"
    and up: "main_running (nodes s (fst e))" and i: "snd e < length (tasks (nodes s (fst e)))"
    and on: "phase (links (nodes s (fst e)) ! snd e) = Running"
  shows "\<exists>evs' :: (nat \<times> 'io node_event) list. \<exists>s'. net_run N s evs' s' \<and> list_all (own_event e) evs' \<and>
    phase (links (nodes s' (fst e)) ! snd e) = Running \<and> handled (end_trace e (evs @ evs')) = sent_at s p"
proof -
  have open_chan: "\<not> is_closed (chan_at s e)" "0 < limit (chan_at s e)"
    using running_channel [OF ops net_init_node [OF run] i on] by simp_all
  obtain rest where all: "sent_at s p = handled (end_trace e evs) @ rest"
    "rest = buffered (chan_at s e) @ in_transit (streams s) e"
    using end_to_end [OF conn run ops] i on by auto
  have "frames_ok (at_node N (fst p)) log (nodes s (fst p))"
    using init_taken [OF bops start net_init_node [OF run]] by blast
  then have "list_all (allowed_frame (at_node N (fst p))) (sent_at s p)"
    by (simp add: frames_ok_def sent_by_def list_all_length)
  then have "\<forall>msg \<in> set rest. \<not> unacceptable (task_env (at_node N (fst e))) msg"
    using all(1) allowed_accepted [OF codec(1) _ codec(2)] by (simp add: list_all_iff)
  with empties [OF _ _ ops, of wire in_transit p s] conn up i on open_chan all(2)
  obtain evs' :: "(nat \<times> 'io node_event) list" and s' where more: "net_run N s evs' s'"
    "list_all (own_event e) evs'" "serving is_closed (nodes s' (fst e)) (snd e)"
    "handled (end_trace e evs') = rest"
    by (auto simp: connected_def serving_def)
  have "handled (end_trace e (evs @ evs')) = handled (end_trace e evs) @ rest"
    using more(4) by (simp add: handled_def end_trace_def node_trace_def task_trace_def)
  with all(1) more(1-3) show ?thesis by (auto simp: serving_def)
qed

lemma sent_frames_can_be_handled_witness:
  "\<exists>evs' s'. net_run sample_net_env met_net (evs' :: (nat \<times> unit node_event) list) s' \<and>
     handled (end_trace (1, 0) (rendezvous @ evs')) = [hello_frame, oleh_frame]"
proof -
  have env: "at_node sample_net_env k = sample_node_env" for k by (simp add: sample_net_env_def)
  from sent_frames_can_be_handled [OF connected_sym [OF sample_connected], unfolded env,
      OF sample_reads_back sample_reads_back sample_bc_ops _ sample_channel_ops [unfolded env]
        met_net_facts(1) [unfolded sample_net_def]]
  show ?thesis
    by (auto simp: met_net_facts [unfolded One_nat_def] sample_bcast_def sent_by_def)
qed

text \<open>
  C10. A connection between two nodes lasts: one that ends without a broken stream and without a failed
  send does so only after heartbeats have filled its channel, so if the other node's interval is
  \<open>d\<close> and this one's channel holds \<open>max_pending_messages\<close>, not before all but two of that many
  intervals have passed there since it started, even if this end handles nothing at all.
\<close>

theorem honest_connection_lasts:
  assumes conn: "connected N wire in_transit w e p"
    and codec: "reads_back (at_node N (fst e)) (at_node N (fst p))"
      "reads_back (at_node N (fst p)) (at_node N (fst e))"
    and bops: "bc_ops (at_node N (fst e)) log receivers pos lim" "bc_ops (at_node N (fst p)) log receivers pos lim"
    and start: "log (bs (fst e)) = []" "log (bs (fst p)) = []"
    and ops: "channel_ops (task_env (at_node N (fst e))) buffered is_closed limit"
      "channel_ops (task_env (at_node N (fst p))) buffered is_closed limit"
    and timer: "interval_timer (iv_ready (at_node N (fst p))) (iv_tick (at_node N (fst p)))
        (iv_reset (at_node N (fst p))) due period iv_new" "iv_new d = Ok (ivs (fst p))"
    and run: "net_run N (net_init ms bs ivs peers w) evs s"
    and i: "snd e < length (tasks (nodes s (fst e)))"
    and over: "phase (links (nodes s (fst e)) ! snd e) \<in> {Draining, WriterClosed, Finished}"
    and whole: "\<not> (\<exists>ev \<in> set (end_trace e evs). breaks_off ev)"
  shows "unat (pending (at_node N (fst e))) * unat d \<le> clock (nodes s (fst p)) + 2 * unat d"
proof -
  note peer = net_init_node [OF run, of "fst p"]
  have "unat (pending (at_node N (fst e))) < length (reads (end_trace e evs))"
    using lost_by_flood [OF conn codec bops(2) start(2) ops(1) run i over] whole by linarith
  moreover have "length (reads (end_trace e evs)) \<le> 2 + length (taken (end_trace p evs))"
    using traffic_bound [OF conn codec(2) bops(1) start(1) ops run] by blast
  moreover have "length (taken (end_trace p evs)) \<le> length (log (bcast (nodes s (fst p))))"
    using taken_bounded [OF bops(2) start(2) peer] by (simp add: end_trace_def)
  ultimately have "unat (pending (at_node N (fst e))) \<le> length (log (bcast (nodes s (fst p)))) + 1"
    by linarith
  then have "unat (pending (at_node N (fst e))) * unat d \<le>
      (length (log (bcast (nodes s (fst p)))) + 1) * unat d"
    by (rule mult_le_mono1)
  also have "\<dots> \<le> clock (nodes s (fst p)) + 2 * unat d"
    using broadcasts_in_time [OF timer(1) bops(2) timer(2) start(2) peer] by (simp add: algebra_simps)
  finally show ?thesis .
qed

text \<open>
  The bound is met: the reader of node 1, whose channel holds two messages, reads the greeting, the
  answer and the first heartbeat of node 0 before it handles anything.
\<close>

definition honest_flood :: "(nat \<times> unit node_event) list" where
  "honest_flood =
     [(0, ListenBind True), (0, NotifyOne), (1, Dial), (1, DialDone 0 True),
      (0, Accept (Some (V4 127 0 0 1 50000))), (0, OfTask 0 (EvInsert \<lparr>created_at = 0\<rparr>)),
      (1, OfTask 0 (EvInsert \<lparr>created_at = 0\<rparr>)), (0, OfTask 0 (EvHandshake True)),
      (1, OfTask 0 (EvHandshake True)), (0, OfTask 0 (EvRead (Some (Inr hello_frame)))),
      (0, OfTask 0 (EvSelect (FromChannel hello_frame) True)), (0, Beat Tick),
      (0, OfTask 0 (EvSelect (FromBroadcast [2, 0]) True)),
      (1, OfTask 0 (EvRead (Some (Inr hello_frame)))), (1, OfTask 0 (EvRead (Some (Inr oleh_frame)))),
      (1, OfTask 0 (EvRead (Some (Inr [2, 0]))))]"

lemma honest_flood_computes:
  "\<exists>s. run_fun (net_next sample_net_env) honest_flood sample_net = Some s \<and>
     map phase (links (nodes s 1)) = [Draining] \<and> clock (nodes s 0) = 0"
  by (simp add: honest_flood_def sample_net_defs)

lemma honest_connection_lasts_witness:
  "\<exists>s. net_run sample_net_env sample_net honest_flood s \<and> map phase (links (nodes s 1)) = [Draining] \<and>
     2 * 1 \<le> clock (nodes s 0) + 2 * 1"
proof -
  obtain s where run: "net_run sample_net_env sample_net honest_flood s"
    and phase: "map phase (links (nodes s 1)) = [Draining]"
    using honest_flood_computes by (auto simp: net.run_iff)
  have env: "at_node sample_net_env k = sample_node_env" for k by (simp add: sample_net_env_def)
  note chan = sample_channel_ops [unfolded env]
  have whole: "\<not> (\<exists>ev \<in> set (end_trace (1, 0) honest_flood). breaks_off ev)"
    by (simp add: honest_flood_def end_trace_def node_trace_def task_trace_def)
  have "tasks (nodes s 1) \<noteq> []" "phase (links (nodes s 1) ! 0) = Draining"
    using phase by auto
  with honest_connection_lasts [OF connected_sym [OF sample_connected], unfolded env,
      OF sample_reads_back sample_reads_back sample_bc_ops sample_bc_ops _ _ chan chan
        sample_interval_timer _ run [unfolded sample_net_def], of 1] whole
  have "unat (pending sample_node_env) * 1 \<le> clock (nodes s 0) + 2 * 1"
    by (simp add: sample_bcast_def interval_new_def)
  with run phase show ?thesis by (auto simp: sample_node_env_def)
qed

end
