(* ===== verification/Occupancy.thy ===== *)
theory Occupancy
  imports Network Membership
begin

text \<open>
  Who occupies the table: a node never ends a connection on its own account. The code has no
  timeout on its peers, so those that stay silent keep their places, and as many of them as
  \<open>max_peer_count\<close> shut everybody else out.
\<close>

section \<open>Silent peers\<close>

text \<open>
  Nothing has come from the peer, neither a message nor an error nor the end of its stream, and no
  send to it has failed.
\<close>

definition silent :: "'io event list \<Rightarrow> bool" where
  "silent evs \<longleftrightarrow> reads evs = [] \<and> \<not> list_ex breaks_off evs"

text \<open>The connection tasks that were admitted to the table and whose peers are silent.\<close>

definition silent_members :: "'io node_event list \<Rightarrow> ('ch, 'b, 'r, 'iv) node \<Rightarrow> nat list" where
  "silent_members evs n =
     [i \<leftarrow> [0..<length (tasks n)]. silent (task_trace i evs) \<and> phase (links n ! i) \<notin> {Spawned, Refused}]"

lemma silent_no_cause:
  assumes "silent evs" and "reads evs = handled evs @ rest"
  shows "\<not> gave_cause E cap evs"
  using assms by (simp add: silent_def gave_cause_def list_ex_iff)

lemma run_reads_handled:
  assumes ops: "channel_ops (task_env E) buffered is_closed limit"
    and run: "node_run E (node_init m b iv peers) evs n" and i: "i < length (tasks n)"
  obtains rest where "reads (task_trace i evs) = handled (task_trace i evs) @ rest"
proof -
  from ops run i obtain addr ch where
    link: "link_run (task_env E) (fresh_link addr ch) (task_trace i evs) (links n ! i)" and "buffered ch = []"
    by (rule end_run)
  with run_flow [OF ops link] that show ?thesis by auto
qed

lemma silent_member_stays:
  assumes ops: "channel_ops (task_env E) buffered is_closed limit"
    and run: "node_run E (node_init m b iv peers) evs n" and i: "i \<in> set (silent_members evs n)"
  shows "phase (links n ! i) \<notin> {Draining, WriterClosed, Finished} \<and> in_table (links n ! i)"
proof -
  from i have i: "i < length (tasks n)" "silent (task_trace i evs)" "phase (links n ! i) \<notin> {Spawned, Refused}"
    by (auto simp: silent_members_def)
  obtain rest where "reads (task_trace i evs) = handled (task_trace i evs) @ rest"
    using run_reads_handled [OF ops run i(1)] .
  with silent_no_cause [OF i(2)] ends_with_cause [OF ops run i(1)]
  have "phase (links n ! i) \<notin> {Draining, WriterClosed, Finished}" by blast
  with i(3) show ?thesis by (simp add: in_table_def)
qed

text \<open>They are all different entries of the table.\<close>

lemma members_counted:
  assumes "\<forall>i \<in> set (silent_members evs n). in_table (links n ! i)"
  shows "length (silent_members evs n) \<le> length (filter in_table (links n))"
proof -
  have "distinct (silent_members evs n)" by (simp add: silent_members_def)
  then have "length (silent_members evs n) = card (set (silent_members evs n))"
    by (simp only: distinct_card)
  also have "\<dots> \<le> card {i. i < length (links n) \<and> in_table (links n ! i)}"
    by (rule card_mono) (use assms in \<open>auto simp: silent_members_def\<close>)
  finally show ?thesis by (simp add: length_filter_conv_card)
qed

lemma full_table_refuses:
  assumes "node_step E n (OfTask k (EvInsert md) :: 'io node_event) n'" and wf: "manager_wf (manager n)"
    and full: "unat (capacity (manager n)) \<le> card (dom (manager_get (manager n)))"
  shows "phase (links n' ! k) = Refused \<and> manager n' = manager n"
  using assms(1)
proof (cases rule: node_cases)
  case (task tev ls l r rs m' l' r')
  then have "tev = EvInsert md" by simp
  with task(4) have step: "task_step (task_env E) (manager n, l) (EvInsert md :: 'io event) (m', l')" by simp
  have "phase l' = Refused \<and> m' = manager n"
    using step
  proof (cases rule: task_step.cases)
    case (refuse e)
    from refuse(3) wf show ?thesis by (cases rule: mgr.ins_cases) (use refuse in auto)
  next
    case (register old)
    from register(3) wf show ?thesis by (cases rule: mgr.ins_cases) (use full in auto)
  qed
  with task show ?thesis by (simp add: nth_append)
qed simp_all

section \<open>Properties\<close>


text \<open>One silent peer and a limit of one: an hour later the next peer is refused.\<close>

definition silence :: "unit node_event list" where
  "silence =
     [ListenBind True, NotifyOne, Accept (Some (V4 10 0 0 1 5000)), OfTask 0 (EvInsert \<lparr>created_at = 0\<rparr>),
      OfTask 0 (EvHandshake True), NotifyOne, Elapse 3600000, Accept (Some (V4 10 0 0 2 5000))]"


end
