(* ===== verification/Spec2Isabelle.thy ===== *)
theory Spec2Isabelle
  imports Ledger Service TaskScenarios Progress Occupancy
begin

text \<open>
  Braidpool node (Rust workspace under src/node): a model of its five crates and the theorems
  about them.

  The program. \<open>node/run\<close> is the binary: it loads the configuration (crate \<open>config\<close>), creates
  the table of connections, the broadcast channel and the heartbeat task, dials the configured
  seeds and listens for peers (crate \<open>connection\<close>). Each connection is one asynchronous task
  that registers in the shared table, greets its peer, reads frames from TCP into a bounded
  channel and, concurrently, answers them with the messages of the crate \<open>protocol\<close> and
  forwards broadcasts; when either loop ends it cleans up. The crate \<open>uhpo\<close>, which the binary
  does not call yet, builds and signs the payout update transactions.

  Theories, in the order of their imports.
  \<^item> Prelude: outcomes of fallible calls (\<open>Ok\<close>, \<open>Err\<close>, \<open>Panic\<close>), indexing, checked \<open>u64\<close>
    arithmetic, runs of a labelled step relation with the locales \<open>preserved\<close> (an invariant),
    \<open>computed_steps\<close> (the relation is a partial function, so runs can be evaluated) and
    \<open>simulation\<close> (the component refines an abstract step relation).
  \<^item> Printing: what the standard library prints for numbers and socket addresses.
  \<^item> Protocol: protocol/src. The messages are records, \<open>Message\<close> a datatype; the trait
    \<open>ProtocolMessage\<close> is the locale \<open>protocol_message\<close>, which the three messages interpret. The
    flexbuffers codec is the pair of parameters \<open>ser\<close>, \<open>de\<close>.
  \<^item> Channel: the bounded channel between the two loops of a connection, tokio's \<open>mpsc\<close>. It is a
    parameter; the locale \<open>mpsc_channel\<close> has its documented laws, \<open>mpsc\<close> adds its creation, a
    bounded queue interprets both.
  \<^item> Broadcast: the channel from the heartbeat to all connections, tokio's \<open>broadcast\<close>, in the
    same way: the laws speak of the sequence of all values sent, a receiver is a position in it,
    and a receiver that falls behind the window is told that it lagged.
  \<^item> Timer: the interval of the heartbeat, tokio's \<open>Interval\<close>, in the same way: the laws of its ticks
    and resets against a clock of milliseconds, and what follows of them over time.
  \<^item> Manager: connection/src/connection_manager.rs, with the locale \<open>connection_table\<close> for its
    contract and the refinement to a bounded finite map.
  \<^item> Connection: \<open>start_read_loop\<close>, \<open>handle_received\<close> and \<open>start_message_handler\<close> of
    connection/src/lib.rs, each loop as one iteration and the loop around it.
  \<^item> Lifecycle: \<open>start_connection\<close> and \<open>start\<close>. The phases of a task are the points of \<open>start\<close>
    between two awaits; \<open>task_step\<close> is the relation, labelled with what the environment chose,
    \<open>task_next\<close> computes it, and \<open>link_step\<close> is the same relation whatever the table.
  \<^item> Heartbeat: \<open>start_heartbeat\<close>.
  \<^item> Node: all tasks together: the loop over the seeds, \<open>connect\<close>, \<open>start_listen\<close>, the
    connection tasks and the heartbeat, one event per step of one task or for time that passes.
    \<open>task_trace\<close> projects a run to one task. Membership: the table of the running node. Delivery:
    its broadcasts and notifications. Timing: its heartbeat over time, by the projection
    \<open>timer_trace\<close> to its interval. Service: the node as an abstract service, which it refines.
  \<^item> Traffic: what one connection task sends and why it ends. Network: any number of nodes and the
    TCP connections between their tasks; the locale \<open>tcp\<close> has the laws of the streams, and
    \<open>node_trace\<close> projects a run of the network to one node, so that all theorems about a node hold
    of each node of a network. Progress: what can still happen on a connection, and how long it
    lasts. Occupancy: why tasks end and who stays in the table.
  \<^item> Config: config/src/lib.rs. Address: how the standard library reads its bind address. Startup: run/src/cli.rs and run/src/main.rs.
  \<^item> TxBuilder, Signature, Payout: uhpo/src, with the bitcoin and secp256k1 crates as the
    operations of the records \<open>bitcoin\<close> and \<open>crypto\<close>; \<open>concrete_crypto\<close> is the implementation of
    the traits for secp256k1. Chain: successive payout updates, against a running balance.
    Ledger: payout updates against the rules by which the network accepts transactions.
  \<^item> Scenarios, TaskScenarios: the repository's unit tests as predicates on the model, but the one
    over a real socket.

  What the theorems show.
  \<^item> Table: every sequence of calls refines a bounded finite map (Manager); with distinct
    addresses its entries are the live tasks at every point of every interleaving, and the limit
    holds; with duplicate addresses it does not, by a run of the model (Membership). With
    distinct addresses the whole node refines a bounded membership service, in which joins and
    leaves match (Service).
  \<^item> Connection: the read loop keeps what fits and reports flooding; the handler answers in order
    and stops at the first bad message; through both, messages arrive in order, none is lost
    while the task runs and the buffer is bounded (Connection, Lifecycle). The events of a task
    come in one order, nothing a peer sends makes it panic, and when it ends the table is
    as if it had not been there. It ends only for a cause that its peer or its stream gave, so
    silent peers keep their places (Occupancy). All this holds of each task inside the node, with all
    others interleaved (Node). Peers receive only frames of the protocol (Delivery).
  \<^item> Protocol: every exchange ends after one answer; two nodes complete the handshake.
  \<^item> Network: what one node's task sends the other node's handler gets, in order and once, through
    both nodes and TCP, and what was sent can always still be handled; nodes that run this code
    never drop each other for what they say, and besides heartbeats say at most two frames per
    connection, so that only many intervals of unhandled heartbeats can end one (Progress).
  \<^item> Heartbeat: exactly when a tick panics, that this is reachable and that the node is silent
    afterwards, and that handling messages never resets the interval, which its comment says it
    does. Broadcasts reach a task in order and never twice; a peer that lagged and stays silent
    gets none any more, because the failed pattern disables its branch of \<open>select!\<close>. In time:
    heartbeats are never faster than configured, one is due whenever an interval passed without a
    reset, and frequent connects, refused ones too, suppress them for ever.
  \<^item> Startup: when main gets to its network loop and with what, what zero settings and ports of
    more than 16 bits do, and that main returns only when binding fails, and then successfully.
  \<^item> Payouts: when \<open>PayoutUpdate::new\<close> returns, that no satoshi is lost, that signing an input is all
    or nothing and never panics for a payout update, and succeeds with libraries that work and
    valid tweaks, that accepted signatures are valid for the transaction \<open>build\<close> returns, and that
    the order of signing does not matter; that a chain of updates pays out exactly all coinbases
    less all fees. On a ledger, the network accepts an update exactly when each input was signed by
    exactly one call whose signature verifies under the key of its script, and a chain of updates
    signed with the right keys settles.
  \<^item> Tests: the model passes the repository's tests but one, which expects an error the handler
    never returns.

  Conventions and bounds. Integers have their width (\<open>usize\<close> and \<open>u64\<close> are 64 bits). No fuel is
  used: \<open>start_read_loop\<close> and \<open>dialogue\<close> are proved terminating, and the loops that run for ever
  are step relations or are driven by the finite list of rounds they go through. An iteration
  of a loop is one atomic step: in the code it may be suspended inside a send, which delays it
  but touches no shared state. A send that is cut off when the other loop ends is, in the model, one
  that succeeded or failed just before: closing the writer may still flush its frame.
  The broadcast channel is never closed: main keeps a sender until it returns.
  Hypotheses on libraries are locale predicates or equations on the operations a theorem uses;
  every theorem with hypotheses has a closed instance, its witness.

  The clock of a node is a natural number of milliseconds from the moment its interval was made;
  the overflow of \<open>Instant\<close> after decades is left out. A tick may come any time after it is due.

  Not modelled: log output; the bytes of flexbuffers and of length-delimited framing and the
  segments of TCP, since frames are the unit; DNS, clap and the TOML parser, which are
  parameters; poisoning of the mutex, since no holder of the lock can panic; memory exhaustion;
  \<open>uhpo::payout_settlement\<close>, an empty struct; the unit test \<open>it_should_run_connect_without_errors\<close>,
  whose outcome rests on the order in which the current-thread runtime polls its tasks, while the
  model's interleavings are arbitrary. A name resolves to the same addresses whenever it is asked.
\<close>

end
